theory Spec2Isabelle
  imports Main "HOL-Library.Word"
begin

unbundle bit_operations_syntax

section \<open>JavaScript numbers and 32-bit operators\<close>

text \<open>
  The engine of \<^verbatim>\<open>src/chacha20.ts\<close> keeps its state in arrays of JavaScript numbers
  (\<^verbatim>\<open>number[]\<close>). Every number it stores is an integer, so a number is modelled as an
  \<open>int\<close>: \<^verbatim>\<open>+\<close> and \<^verbatim>\<open>++\<close> are the integer operations (a double is exact on integers
  of magnitude below \<open>2^53\<close>; see \<open>exact\<close> below), and the bitwise operators first
  reduce their operands to 32 bits (ToInt32, ToUint32) and return a signed 32-bit result,
  \<^verbatim>\<open>>>>\<close> an unsigned one. The elements of a \<^verbatim>\<open>Uint8Array\<close> are bytes.
\<close>

type_synonym number = int
type_synonym byte = "8 word"

definition ToInt32 :: "number \<Rightarrow> number" where
  "ToInt32 x = sint (word_of_int x :: 32 word)"

definition ToUint32 :: "number \<Rightarrow> number" where
  "ToUint32 x = uint (word_of_int x :: 32 word)"

text \<open>\<^verbatim>\<open>x ^ y\<close>, \<^verbatim>\<open>x | y\<close>, \<^verbatim>\<open>x & y\<close>, \<^verbatim>\<open>x << s\<close> and \<^verbatim>\<open>x >>> s\<close>.\<close>

definition js_xor :: "number \<Rightarrow> number \<Rightarrow> number" where
  "js_xor x y = sint ((word_of_int x :: 32 word) XOR word_of_int y)"

definition js_or :: "number \<Rightarrow> number \<Rightarrow> number" where
  "js_or x y = sint ((word_of_int x :: 32 word) OR word_of_int y)"

definition js_and :: "number \<Rightarrow> number \<Rightarrow> number" where
  "js_and x y = sint ((word_of_int x :: 32 word) AND word_of_int y)"

definition js_shl :: "number \<Rightarrow> nat \<Rightarrow> number" where
  "js_shl x s = sint (push_bit (s mod 32) (word_of_int x :: 32 word))"

definition js_shr_u :: "number \<Rightarrow> nat \<Rightarrow> number" where
  "js_shr_u x s = uint (drop_bit (s mod 32) (word_of_int x :: 32 word))"

text \<open>Storing a number into a \<^verbatim>\<open>Uint8Array\<close> keeps its low 8 bits; reading gives 0..255.\<close>

definition ToUint8 :: "number \<Rightarrow> byte" where
  "ToUint8 x = word_of_int x"

definition elem :: "byte list \<Rightarrow> nat \<Rightarrow> number" where
  "elem data i = uint (data ! i)"

section \<open>The engine\<close>

text \<open>
  The fields of class \<^verbatim>\<open>Chacha20\<close>. \<^verbatim>\<open>_rounds\<close> and \<^verbatim>\<open>_sigma\<close> are initialised once
  and never assigned, so they are constants.
\<close>

record engine =
  key :: "byte list"
  nonce :: "byte list"
  counter :: number
  param :: "number list"
  keystream :: "number list"
  byteCounter :: nat

definition rounds :: nat where
  "rounds = 20"

definition sigma :: "number list" where
  "sigma = [0x61707865, 0x3320646e, 0x79622d32, 0x6b206574]"

text \<open>An argument of the constructor or of \<^verbatim>\<open>encrypt\<close>/\<^verbatim>\<open>decrypt\<close>: a \<^verbatim>\<open>Uint8Array\<close>,
  \<^verbatim>\<open>null\<close>, or any other value that is not a \<^verbatim>\<open>Uint8Array\<close>.\<close>

datatype arg = Uint8Array "byte list" | Null | Other

fun instanceof_Uint8Array :: "arg \<Rightarrow> bool" where
  "instanceof_Uint8Array (Uint8Array bs) = True"
| "instanceof_Uint8Array _ = False"

fun bytes :: "arg \<Rightarrow> byte list" where
  "bytes (Uint8Array bs) = bs"
| "bytes _ = []"

datatype error = Error string

subsection \<open>\<^verbatim>\<open>_get32\<close> and \<^verbatim>\<open>_rotl\<close>\<close>

definition get32 :: "byte list \<Rightarrow> nat \<Rightarrow> number" where
  "get32 data index =
     js_xor (js_xor (js_xor (elem data index) (js_shl (elem data (index + 1)) 8))
                    (js_shl (elem data (index + 2)) 16))
            (js_shl (elem data (index + 3)) 24)"

text \<open>In \<^verbatim>\<open>data >>> (32 - shift)\<close> the count \<^verbatim>\<open>32 - shift\<close> is a number, negative for a
  shift above 32, and \<^verbatim>\<open>>>>\<close> takes it modulo 32.\<close>

definition rotl :: "number \<Rightarrow> nat \<Rightarrow> number" where
  "rotl data shift =
     js_or (js_shl data shift) (js_shr_u data (nat ((32 - int shift) mod 32)))"

subsection \<open>\<^verbatim>\<open>_quarterround\<close>\<close>

text \<open>
  One statement \<^verbatim>\<open>output[t] = this._rotl(output[t] ^ (output[x] += output[y]), s)\<close>:
  the old \<^verbatim>\<open>output[t]\<close> is read, then the sum is stored in \<^verbatim>\<open>output[x]\<close> as a plain
  number (not reduced), then the rotated exclusive-or is stored in \<^verbatim>\<open>output[t]\<close>.
\<close>

definition arx :: "number list \<Rightarrow> nat \<Rightarrow> nat \<Rightarrow> nat \<Rightarrow> nat \<Rightarrow> number list" where
  "arx output t x y s =
     (let old = output ! t;
          sum = output ! x + output ! y;
          output = output[x := sum]
      in output[t := rotl (js_xor old sum) s])"

definition quarterround :: "number list \<Rightarrow> nat \<Rightarrow> nat \<Rightarrow> nat \<Rightarrow> nat \<Rightarrow> number list" where
  "quarterround output a b c d =
     (let output = arx output d a b 16;
          output = arx output b c d 12;
          output = arx output d a b 8;
          output = arx output b c d 7;
          output = output[a := ToUint32 (output ! a)];
          output = output[b := ToUint32 (output ! b)];
          output = output[c := ToUint32 (output ! c)];
          output = output[d := ToUint32 (output ! d)]
      in output)"

subsection \<open>\<^verbatim>\<open>_chacha\<close>\<close>

definition double_round :: "number list \<Rightarrow> number list" where
  "double_round mix =
     (let mix = quarterround mix 0 4 8 12;
          mix = quarterround mix 1 5 9 13;
          mix = quarterround mix 2 6 10 14;
          mix = quarterround mix 3 7 11 15;
          mix = quarterround mix 0 5 10 15;
          mix = quarterround mix 1 6 11 12;
          mix = quarterround mix 2 7 8 13;
          mix = quarterround mix 3 4 9 14
      in mix)"

text \<open>\<^verbatim>\<open>for (i = 0; i < this._rounds; i += 2) { ... }\<close>\<close>

function mix_rounds :: "nat \<Rightarrow> number list \<Rightarrow> number list" where
  "mix_rounds i mix = (if i < rounds then mix_rounds (i + 2) (double_round mix) else mix)"
  by pat_completeness auto
termination
  by (relation "measure (\<lambda>(i, mix). rounds - i)") auto

declare mix_rounds.simps [simp del]

text \<open>
  The body of the last loop of \<^verbatim>\<open>_chacha\<close>, on the triple of \<^verbatim>\<open>mix\<close>, \<^verbatim>\<open>_keystream\<close> and
  the byte index \<^verbatim>\<open>b\<close>: the parameter word is added (as plain numbers) and the four
  bytes of the sum are stored, least significant first.
\<close>

definition store_word ::
  "number list \<Rightarrow> nat \<Rightarrow> number list \<times> number list \<times> nat \<Rightarrow> number list \<times> number list \<times> nat" where
  "store_word p i st =
     (case st of (mix, ks, b) \<Rightarrow>
        let mix = mix[i := mix ! i + p ! i];
            ks = ks[b := js_and (mix ! i) 0xFF];
            ks = ks[b + 1 := js_and (js_shr_u (mix ! i) 8) 0xFF];
            ks = ks[b + 2 := js_and (js_shr_u (mix ! i) 16) 0xFF];
            ks = ks[b + 3 := js_and (js_shr_u (mix ! i) 24) 0xFF]
        in (mix, ks, b + 4))"

definition chacha :: "engine \<Rightarrow> engine" where
  "chacha e =
     (let mix = replicate 16 0;
          mix = fold (\<lambda>i mix. mix[i := param e ! i]) [0..<16] mix;
          mix = mix_rounds 0 mix;
          (mix, ks, b) = fold (store_word (param e)) [0..<16] (mix, keystream e, 0)
      in e\<lparr>keystream := ks\<rparr>)"

subsection \<open>The constructor\<close>

definition Chacha20 :: "arg \<Rightarrow> arg \<Rightarrow> number option \<Rightarrow> error + engine" where
  "Chacha20 k n c =
     (if \<not> instanceof_Uint8Array k \<or> length (bytes k) \<noteq> 32
      then Inl (Error ''Key should be 32 byte array!'')
      else if \<not> instanceof_Uint8Array n \<or> length (bytes n) \<noteq> 12
      then Inl (Error ''Nonce should be 12 byte array!'')
      else
        let cnt = (case c of None \<Rightarrow> 0 | Some v \<Rightarrow> if v = 0 then 0 else v)
        in Inr \<lparr> key = bytes k, nonce = bytes n, counter = cnt,
                 param = [sigma ! 0, sigma ! 1, sigma ! 2, sigma ! 3,
                          get32 (bytes k) 0, get32 (bytes k) 4, get32 (bytes k) 8,
                          get32 (bytes k) 12, get32 (bytes k) 16, get32 (bytes k) 20,
                          get32 (bytes k) 24, get32 (bytes k) 28,
                          cnt,
                          get32 (bytes n) 0, get32 (bytes n) 4, get32 (bytes n) 8],
                 keystream = replicate 64 0,
                 byteCounter = 0 \<rparr>)"

subsection \<open>\<^verbatim>\<open>_update\<close>, \<^verbatim>\<open>encrypt\<close> and \<^verbatim>\<open>decrypt\<close>\<close>

text \<open>The block regeneration inside the loop: \<^verbatim>\<open>_chacha()\<close>, \<^verbatim>\<open>_param[12]++\<close>,
  \<^verbatim>\<open>_byteCounter = 0\<close>.\<close>

definition new_block :: "engine \<Rightarrow> engine" where
  "new_block e =
     (let e = chacha e;
          e = e\<lparr>param := (param e)[12 := param e ! 12 + 1]\<rparr>
      in e\<lparr>byteCounter := 0\<rparr>)"

function update_loop :: "byte list \<Rightarrow> nat \<Rightarrow> engine \<Rightarrow> byte list \<Rightarrow> engine \<times> byte list" where
  "update_loop data i e output =
     (if i < length data then
        let e = (if byteCounter e = 0 \<or> byteCounter e = 64 then new_block e else e);
            output = output[i := ToUint8 (js_xor (elem data i) (keystream e ! byteCounter e))];
            e = e\<lparr>byteCounter := byteCounter e + 1\<rparr>
        in update_loop data (i + 1) e output
      else (e, output))"
  by pat_completeness auto
termination
  by (relation "measure (\<lambda>(data, i, e, output). length data - i)") auto

declare update_loop.simps [simp del]

text \<open>A call that throws leaves the engine as it was; the result is the engine after
  the call and either the error or the returned array.\<close>

definition update :: "engine \<Rightarrow> arg \<Rightarrow> engine \<times> (error + byte list)" where
  "update e data =
     (if \<not> instanceof_Uint8Array data \<or> length (bytes data) = 0
      then (e, Inl (Error ''Data should be type of bytes (Uint8Array) and not empty!''))
      else
        let output = replicate (length (bytes data)) 0;
            (e, output) = update_loop (bytes data) 0 e output
        in (e, Inr output))"

definition encrypt :: "engine \<Rightarrow> arg \<Rightarrow> engine \<times> (error + byte list)" where
  "encrypt e data = update e data"

definition decrypt :: "engine \<Rightarrow> arg \<Rightarrow> engine \<times> (error + byte list)" where
  "decrypt e data = update e data"

section \<open>The block function as the specification words it\<close>

text \<open>
  The specification describes the block function on fixed-width 32-bit words: a
  quarter-round of additions, exclusive-ors and left rotations, ten double-rounds over
  the column and diagonal groups, the word-by-word addition of the original state, and the
  little-endian serialisation. These definitions follow that wording; they are compared
  with \<open>chacha\<close> below.
\<close>

text \<open>One line of the quarter-round: \<open>x += y; t ^= x; t = rotate-left(t, s)\<close>, modulo \<open>2^32\<close>.\<close>

definition spec_line :: "32 word list \<Rightarrow> nat \<Rightarrow> nat \<Rightarrow> nat \<Rightarrow> nat \<Rightarrow> 32 word list" where
  "spec_line w x y t s =
     (let w = w[x := w ! x + w ! y];
          w = w[t := w ! t XOR w ! x];
          w = w[t := word_rotl s (w ! t)]
      in w)"

definition spec_quarter_round ::
  "32 word list \<Rightarrow> nat \<Rightarrow> nat \<Rightarrow> nat \<Rightarrow> nat \<Rightarrow> 32 word list" where
  "spec_quarter_round w a b c d =
     (let w = spec_line w a b d 16;
          w = spec_line w c d b 12;
          w = spec_line w a b d 8;
          w = spec_line w c d b 7
      in w)"

definition spec_double_round :: "32 word list \<Rightarrow> 32 word list" where
  "spec_double_round w =
     (let w = spec_quarter_round w 0 4 8 12;
          w = spec_quarter_round w 1 5 9 13;
          w = spec_quarter_round w 2 6 10 14;
          w = spec_quarter_round w 3 7 11 15;
          w = spec_quarter_round w 0 5 10 15;
          w = spec_quarter_round w 1 6 11 12;
          w = spec_quarter_round w 2 7 8 13;
          w = spec_quarter_round w 3 4 9 14
      in w)"

definition spec_block :: "32 word list \<Rightarrow> 32 word list" where
  "spec_block state =
     (let working = state;
          working = (spec_double_round ^^ 10) working
      in map2 (+) working state)"

definition le_bytes :: "32 word \<Rightarrow> byte list" where
  "le_bytes w = [ucast w, ucast (drop_bit 8 w), ucast (drop_bit 16 w), ucast (drop_bit 24 w)]"

definition spec_keystream_block :: "32 word list \<Rightarrow> byte list" where
  "spec_keystream_block state = concat (map le_bytes (spec_block state))"

text \<open>The specification's word for four key or nonce bytes:
  \<open>b0 | (b1<<8) | (b2<<16) | (b3<<24)\<close>.\<close>

definition le_word :: "byte list \<Rightarrow> nat \<Rightarrow> 32 word" where
  "le_word bs i = ucast (bs ! i) OR push_bit 8 (ucast (bs ! (i + 1)))
                  OR push_bit 16 (ucast (bs ! (i + 2))) OR push_bit 24 (ucast (bs ! (i + 3)))"

section \<open>Well-formed engines\<close>

text \<open>Every engine the constructor returns, and every engine a call leaves behind, has
  16 parameter words, 64 keystream bytes and a cursor of at most 64.\<close>

definition engine_ok :: "engine \<Rightarrow> bool" where
  "engine_ok e \<longleftrightarrow> length (param e) = 16 \<and> length (keystream e) = 64 \<and> byteCounter e \<le> 64"

text \<open>
  The code's numbers are doubles, the model's are integers. The two agree as long as every
  sum the code forms is an integer of magnitude below \<open>2^53\<close>. A state whose words are
  below \<open>2^50\<close> in magnitude is well inside that range, since a sum in the block function
  has at most two of these words and two 32-bit values as summands; every state that an
  engine reaches from a 32-bit counter within \<open>2^53\<close> bytes of input is such a state
  (lemma \<open>exact_reachable\<close>). The statements about the values of the words are made
  for these states.
\<close>

definition exact :: "number list \<Rightarrow> bool" where
  "exact p \<longleftrightarrow> list_all (\<lambda>x. - (2 ^ 50) \<le> x \<and> x < 2 ^ 50) p"

section \<open>Auxiliary notions for the proofs\<close>

text \<open>A number read as a 32-bit word, as every bitwise operator of the code reads it.\<close>

abbreviation w32 :: "number \<Rightarrow> 32 word" where
  "w32 \<equiv> word_of_int"

text \<open>The four numbers that one iteration of the last loop of \<open>chacha\<close> stores.\<close>

definition bytes4 :: "number \<Rightarrow> number list" where
  "bytes4 x = [js_and x 0xFF, js_and (js_shr_u x 8) 0xFF,
               js_and (js_shr_u x 16) 0xFF, js_and (js_shr_u x 24) 0xFF]"

text \<open>
  The loop of \<open>update_loop\<close> as a recursion over the input bytes still to be read:
  \<open>stream e xs\<close> is the engine after the bytes \<open>xs\<close> and the bytes written for them
  (lemma \<open>update_loop_stream\<close> below).
\<close>

fun stream :: "engine \<Rightarrow> byte list \<Rightarrow> engine \<times> byte list" where
  "stream e [] = (e, [])"
| "stream e (x # xs) =
     (let e = (if byteCounter e = 0 \<or> byteCounter e = 64 then new_block e else e);
          y = ToUint8 (js_xor (uint x) (keystream e ! byteCounter e));
          e = e\<lparr>byteCounter := byteCounter e + 1\<rparr>;
          (e, ys) = stream e xs
      in (e, y # ys))"

section \<open>Sequences of calls\<close>

text \<open>
  A caller drives an engine by a sequence of \<^verbatim>\<open>encrypt\<close> and \<^verbatim>\<open>decrypt\<close> calls. \<open>run\<close>
  gives, for each call in order, the engine after the call and what the call returned
  or threw.
\<close>

datatype call = Encrypt arg | Decrypt arg

fun argument :: "call \<Rightarrow> arg" where
  "argument (Encrypt a) = a"
| "argument (Decrypt a) = a"

fun do_call :: "engine \<Rightarrow> call \<Rightarrow> engine \<times> (error + byte list)" where
  "do_call e (Encrypt a) = encrypt e a"
| "do_call e (Decrypt a) = decrypt e a"

fun run :: "engine \<Rightarrow> call list \<Rightarrow> (engine \<times> (error + byte list)) list" where
  "run e [] = []"
| "run e (c # cs) = (let r = do_call e c in r # run (fst r) cs)"

definition final :: "engine \<Rightarrow> call list \<Rightarrow> engine" where
  "final e cs = (if cs = [] then e else fst (last (run e cs)))"

section \<open>\<^verbatim>\<open>_update\<close> on a store of arrays\<close>

text \<open>
  \<^verbatim>\<open>_update\<close> allocates its result with \<^verbatim>\<open>new Uint8Array(data.length)\<close> and writes it
  by index, while it reads the caller's array. To speak about the caller's array after
  the call, the arrays live in a store: a reference is a position in the list of all
  arrays allocated so far, and an allocation appends a zero-filled array. The loop below
  is the loop of \<open>update_loop\<close>, reading and writing through the store.
\<close>

type_synonym ref = nat
type_synonym heap = "byte list list"

datatype val = Ref ref | NullVal | OtherVal

definition new_Uint8Array :: "heap \<Rightarrow> nat \<Rightarrow> heap \<times> ref" where
  "new_Uint8Array h n = (h @ [replicate n 0], length h)"

function update_loop_heap :: "ref \<Rightarrow> ref \<Rightarrow> nat \<Rightarrow> engine \<Rightarrow> heap \<Rightarrow> engine \<times> heap" where
  "update_loop_heap data out i e h =
     (if i < length (h ! data) then
        let e = (if byteCounter e = 0 \<or> byteCounter e = 64 then new_block e else e);
            h = h[out := (h ! out)[i := ToUint8 (js_xor (elem (h ! data) i) (keystream e ! byteCounter e))]];
            e = e\<lparr>byteCounter := byteCounter e + 1\<rparr>
        in update_loop_heap data out (i + 1) e h
      else (e, h))"
  by pat_completeness auto
termination
  apply (relation "measure (\<lambda>(data, out, i, e, h). length (h ! data) - i)")
   apply simp
  subgoal for data out i e h
    by (cases "out < length h") (auto simp add: nth_list_update list_update_beyond not_less)
  done

declare update_loop_heap.simps [simp del]

definition update_heap :: "heap \<Rightarrow> engine \<Rightarrow> val \<Rightarrow> heap \<times> engine \<times> (error + ref)" where
  "update_heap h e data =
     (case data of
        Ref r \<Rightarrow>
          if length (h ! r) = 0
          then (h, e, Inl (Error ''Data should be type of bytes (Uint8Array) and not empty!''))
          else
            let (h, out) = new_Uint8Array h (length (h ! r));
                (e, h) = update_loop_heap r out 0 e h
            in (h, e, Inr out)
      | _ \<Rightarrow> (h, e, Inl (Error ''Data should be type of bytes (Uint8Array) and not empty!'')))"

definition encrypt_heap :: "heap \<Rightarrow> engine \<Rightarrow> val \<Rightarrow> heap \<times> engine \<times> (error + ref)" where
  "encrypt_heap h e data = update_heap h e data"

definition decrypt_heap :: "heap \<Rightarrow> engine \<Rightarrow> val \<Rightarrow> heap \<times> engine \<times> (error + ref)" where
  "decrypt_heap h e data = update_heap h e data"

section \<open>The bitwise operators on 32-bit words\<close>
lemma rotl_word: 
  assumes s: "0 < s" "s < 32"
  shows "push_bit s w OR drop_bit (32 - s) w = word_rotl s (w :: 32 word)"
proof (rule bit_word_eqI)
  fix n assume "n < LENGTH(32)"
  then have n: "n < 32" by simp
  have L: "bit (push_bit s w OR drop_bit (32 - s) w) n = ((s \<le> n \<and> bit w (n - s)) \<or> bit w (32 - s + n))"
    using n by (simp add: bit_or_iff bit_push_bit_iff bit_drop_bit_eq)
  have R: "bit (word_rotl s w) n = bit w ((n + (32 - s)) mod 32)"
    using n s by (simp add: bit_word_rotl_iff)
  show "bit (push_bit s w OR drop_bit (32 - s) w) n = bit (word_rotl s w) n"
  proof (cases "s \<le> n")
    case True
    then have e: "n + (32 - s) = (n - s) + 32" using s by arith
    have m: "(n + (32 - s)) mod 32 = n - s" unfolding e using n by simp
    have "\<not> 32 - s + n < LENGTH(32)" using True s by simp
    then have "\<not> bit w (32 - s + n)" using bit_imp_le_length [of w "32 - s + n"] by blast
    then show ?thesis unfolding L R m using True by simp
  next
    case False
    then have m: "(n + (32 - s)) mod 32 = 32 - s + n" using n s by simp
    show ?thesis unfolding L R m using False by simp
  qed
qed

lemma w32_rotl: "0 < s \<Longrightarrow> s < 32 \<Longrightarrow> w32 (rotl x s) = word_rotl s (w32 x)"
proof -
  assume s: "0 < s" "s < 32"
  then have "(32 - int s) mod 32 = 32 - int s"
    by (intro mod_pos_pos_trivial) simp_all
  moreover have "nat (32 - int s) = 32 - s"
    by linarith
  ultimately have "nat ((32 - int s) mod 32) = 32 - s"
    by (simp only:)
  then have "rotl x s = js_or (js_shl x s) (js_shr_u x (32 - s))"
    by (simp only: rotl_def)
  then show ?thesis
    using s by (simp add: js_or_def js_shl_def js_shr_u_def rotl_word)
qed

lemma sint_small: "uint (v :: 32 word) < 2 ^ 31 \<Longrightarrow> sint v = uint v"
proof -
  assume a: "uint v < 2 ^ 31"
  have "- (2 ^ 31) \<le> uint v" by (rule order_trans [of _ 0]) simp_all
  then have "signed_take_bit 31 (uint v) = uint v" using a by (rule signed_take_bit_int_eq_self)
  then show ?thesis by (simp add: sint_uint)
qed

lemma m255: "(255 :: 32 word) = mask 8"
  by (simp add: mask_eq_exp_minus_1)

lemma uint_and255: "uint ((w :: 32 word) AND 255) = take_bit 8 (uint w)"
  unfolding m255 by (simp flip: take_bit_eq_mask add: unsigned_take_bit_eq)

lemma and255: "sint ((w :: 32 word) AND 255) = uint (ucast w :: 8 word)"
proof -
  have "take_bit 8 (uint w) < 2 ^ 8" by (rule take_bit_int_less_exp)
  then have "uint (w AND 255) < 2 ^ 31" unfolding uint_and255 by simp
  then have "sint (w AND 255) = uint (w AND 255)" by (rule sint_small)
  then show ?thesis by (simp add: uint_and255 unsigned_ucast_eq)
qed

lemma js_and_255: "js_and x 255 = uint (ucast (word_of_int x :: 32 word) :: 8 word)"
  by (simp add: js_and_def and255)

lemma js_and_shr_255: "s < 32 \<Longrightarrow> js_and (js_shr_u x s) 255 = uint (ucast (drop_bit s (word_of_int x :: 32 word)) :: 8 word)"
  by (simp add: js_and_def js_shr_u_def and255)

section \<open>The quarter-round and the rounds on words\<close>

lemma length_arx [simp]: "length (arx out t x y s) = length out"
  by (simp add: arx_def Let_def)

lemma map_w32_arx:
  assumes "t < length out" "x < length out" "y < length out" "t \<noteq> x" "0 < s" "s < 32"
  shows "map w32 (arx out t x y s) = spec_line (map w32 out) x y t s"
  using assms
  by (simp add: arx_def spec_line_def Let_def map_update w32_rotl js_xor_def)

lemma length_quarterround [simp]: "length (quarterround out a b c d) = length out"
  by (simp add: quarterround_def Let_def)

lemma map_w32_ToUint32_update: "map w32 (xs[i := ToUint32 (xs ! i)]) = map w32 xs"
proof (cases "i < length xs")
  case True
  then have "(map w32 xs)[i := w32 (xs ! i)] = map w32 xs"
    by (simp add: list_update_same_conv)
  then show ?thesis by (simp add: map_update ToUint32_def)
next
  case False
  then show ?thesis by (simp add: list_update_beyond not_less)
qed

lemma map_w32_quarterround:
  assumes "a < length out" "b < length out" "c < length out" "d < length out"
    "a \<noteq> b" "a \<noteq> c" "a \<noteq> d" "b \<noteq> c" "b \<noteq> d" "c \<noteq> d"
  shows "map w32 (quarterround out a b c d) = spec_quarter_round (map w32 out) a b c d"
proof -
  have "map w32 (quarterround out a b c d) =
        map w32 (arx (arx (arx (arx out d a b 16) b c d 12) d a b 8) b c d 7)"
    unfolding quarterround_def Let_def
    by (simp only: map_w32_ToUint32_update)
  also have "\<dots> = spec_quarter_round (map w32 out) a b c d"
    using assms by (simp add: map_w32_arx spec_quarter_round_def)
  finally show ?thesis .
qed

lemma length_double_round [simp]: "length (double_round m) = length m"
  by (simp add: double_round_def Let_def)

lemma length_spec_line [simp]: "length (spec_line w x y t s) = length w"
  by (simp add: spec_line_def Let_def)

lemma length_spec_quarter_round [simp]: "length (spec_quarter_round w a b c d) = length w"
  by (simp add: spec_quarter_round_def Let_def)

lemma map_w32_double_round:
  "length m = 16 \<Longrightarrow> map w32 (double_round m) = spec_double_round (map w32 m)"
  by (simp add: double_round_def spec_double_round_def Let_def map_w32_quarterround)

lemma length_funpow_double_round [simp]: "length ((double_round ^^ n) m) = length m"
  by (induction n) simp_all

lemma map_w32_funpow_double_round:
  "length m = 16 \<Longrightarrow> map w32 ((double_round ^^ n) m) = (spec_double_round ^^ n) (map w32 m)"
  by (induction n) (simp_all add: map_w32_double_round)

lemma mix_rounds_eq: "mix_rounds 0 m = (double_round ^^ 10) m"
  by (simp add: mix_rounds.simps rounds_def numeral_eq_Suc funpow_swap1)

section \<open>The loops of the block function\<close>

lemma fold_copy:
  "n \<le> length mix \<Longrightarrow> length p = length mix \<Longrightarrow>
   fold (\<lambda>i m. m[i := p ! i]) [0..<n] mix = take n p @ drop n mix"
proof (induction n)
  case 0
  then show ?case by simp
next
  case (Suc n)
  then have "fold (\<lambda>i m. m[i := p ! i]) [0..<Suc n] mix = (take n p @ drop n mix)[n := p ! n]"
    by simp
  also have "\<dots> = take (Suc n) p @ drop (Suc n) mix"
    using Suc.prems
    by (simp add: list_update_append take_Suc_conv_app_nth
        flip: Cons_nth_drop_Suc upd_conv_take_nth_drop)
  finally show ?case .
qed

lemma update4:
  assumes "length K = m" "m + 3 < length ks"
  shows "(K @ drop m ks)[m := b0, m + 1 := b1, m + 2 := b2, m + 3 := b3]
         = (K @ [b0, b1, b2, b3]) @ drop (m + 4) ks"
proof -
  have d: "drop m ks = ks ! m # ks ! (m + 1) # ks ! (m + 2) # ks ! (m + 3) # drop (m + 4) ks"
  proof -
    have "drop m ks = ks ! m # drop (Suc m) ks"
      using assms(2) by (simp add: Cons_nth_drop_Suc)
    also have "drop (Suc m) ks = ks ! (Suc m) # drop (Suc (Suc m)) ks"
      using assms(2) by (simp add: Cons_nth_drop_Suc)
    also have "drop (Suc (Suc m)) ks = ks ! (Suc (Suc m)) # drop (Suc (Suc (Suc m))) ks"
      using assms(2) by (simp add: Cons_nth_drop_Suc)
    also have "drop (Suc (Suc (Suc m))) ks = ks ! (Suc (Suc (Suc m))) # drop (Suc (Suc (Suc (Suc m)))) ks"
      using assms(2) by (simp add: Cons_nth_drop_Suc)
    finally show ?thesis by (simp add: numeral_eq_Suc)
  qed
  show ?thesis using assms(1) unfolding d by (simp add: list_update_append numeral_eq_Suc)
qed

lemma fold_store_word:
  assumes "length mix = 16" "length p = 16" "length ks = 64"
  shows "n \<le> 16 \<Longrightarrow>
    fold (store_word p) [0..<n] (mix, ks, 0) =
      (map2 (+) (take n mix) (take n p) @ drop n mix,
       concat (map (\<lambda>i. bytes4 (mix ! i + p ! i)) [0..<n]) @ drop (4 * n) ks,
       4 * n)"
proof (induction n)
  case 0
  then show ?case by simp
next
  case (Suc n)
  let ?A = "map2 (+) (take n mix) (take n p)"
  let ?K = "concat (map (\<lambda>i. bytes4 (mix ! i + p ! i)) [0..<n])"
  have lA: "length ?A = n" using Suc.prems assms by simp
  have lK: "length ?K = 4 * n" by (induction n) (simp_all add: bytes4_def)
  have n: "n < 16" using Suc.prems by simp
  have "fold (store_word p) [0..<Suc n] (mix, ks, 0)
        = store_word p n (?A @ drop n mix, ?K @ drop (4 * n) ks, 4 * n)"
    using Suc by simp
  also have "\<dots> = ((?A @ drop n mix)[n := mix ! n + p ! n],
       (?K @ drop (4 * n) ks)[4 * n := js_and (mix ! n + p ! n) 0xFF,
           4 * n + 1 := js_and (js_shr_u (mix ! n + p ! n) 8) 0xFF,
           4 * n + 2 := js_and (js_shr_u (mix ! n + p ! n) 16) 0xFF,
           4 * n + 3 := js_and (js_shr_u (mix ! n + p ! n) 24) 0xFF],
       4 * n + 4)"
    using lA n assms by (simp add: store_word_def Let_def nth_append)
  also have "(?A @ drop n mix)[n := mix ! n + p ! n]
        = map2 (+) (take (Suc n) mix) (take (Suc n) p) @ drop (Suc n) mix"
    using lA n assms
    by (simp add: list_update_append take_Suc_conv_app_nth flip: Cons_nth_drop_Suc)
  also have "(?K @ drop (4 * n) ks)[4 * n := js_and (mix ! n + p ! n) 0xFF,
           4 * n + 1 := js_and (js_shr_u (mix ! n + p ! n) 8) 0xFF,
           4 * n + 2 := js_and (js_shr_u (mix ! n + p ! n) 16) 0xFF,
           4 * n + 3 := js_and (js_shr_u (mix ! n + p ! n) 24) 0xFF]
       = (?K @ bytes4 (mix ! n + p ! n)) @ drop (4 * n + 4) ks"
    using update4 [OF lK, of ks] n assms by (simp add: bytes4_def)
  finally show ?case by (simp add: add.commute)
qed

lemma chacha_unfold:
  assumes "length (param e) = 16" "length (keystream e) = 64"
  shows "chacha e = e\<lparr>keystream :=
           concat (map (\<lambda>i. bytes4 (((double_round ^^ 10) (param e)) ! i + param e ! i)) [0..<16])\<rparr>"
proof -
  have c: "fold (\<lambda>i mix. mix[i := param e ! i]) [0..<16] (replicate 16 0) = param e"
    using assms by (simp add: fold_copy)
  have "fold (store_word (param e)) [0..<16] ((double_round ^^ 10) (param e), keystream e, 0) =
      (map2 (+) (take 16 ((double_round ^^ 10) (param e))) (take 16 (param e)) @ drop 16 ((double_round ^^ 10) (param e)),
       concat (map (\<lambda>i. bytes4 (((double_round ^^ 10) (param e)) ! i + param e ! i)) [0..<16]) @ drop (4 * 16) (keystream e),
       4 * 16)"
    using assms by (intro fold_store_word) simp_all
  then show ?thesis
    using assms unfolding chacha_def c mix_rounds_eq Let_def by simp
qed

lemma bytes4_le_bytes: "bytes4 x = map uint (le_bytes (w32 x))"
  by (simp add: bytes4_def le_bytes_def js_and_255 js_and_shr_255 js_shr_u_def)

lemma concat_map_nth:
  "concat (map (\<lambda>i. f (xs ! i)) [0..<length xs]) = concat (map f xs)"
  by (simp add: map_nth flip: map_map [unfolded comp_def])

lemma chacha_keystream:
  assumes "length (param e) = 16" "length (keystream e) = 64"
  shows "keystream (chacha e) = map uint (spec_keystream_block (map w32 (param e)))"
proof -
  let ?m = "(double_round ^^ 10) (param e)"
  let ?s = "map2 (+) (map w32 ?m) (map w32 (param e))"
  have l: "length ?s = 16" using assms by simp
  have a: "keystream (chacha e) = concat (map (\<lambda>i. bytes4 (?m ! i + param e ! i)) [0..<16])"
    using assms by (simp add: chacha_unfold)
  have b: "map (\<lambda>i. bytes4 (?m ! i + param e ! i)) [0..<16]
           = map (\<lambda>i. map uint (le_bytes (?s ! i))) [0..<16]"
  proof (rule map_cong [OF refl])
    fix i :: nat assume "i \<in> set [0..<16]"
    then have "i < 16" by simp
    then show "bytes4 (?m ! i + param e ! i) = map uint (le_bytes (?s ! i))"
      using assms by (simp add: bytes4_le_bytes)
  qed
  have c: "concat (map (\<lambda>i. map uint (le_bytes (?s ! i))) [0..<16])
           = concat (map (\<lambda>w. map uint (le_bytes w)) ?s)"
    using concat_map_nth [of "\<lambda>w. map uint (le_bytes w)" ?s] l by simp
  have d: "concat (map (\<lambda>w. map uint (le_bytes w)) ?s) = map uint (concat (map le_bytes ?s))"
    by (simp add: map_concat comp_def)
  have s: "?s = spec_block (map w32 (param e))"
    using assms by (simp add: spec_block_def map_w32_funpow_double_round)
  have "keystream (chacha e) = map uint (concat (map le_bytes ?s))"
    using a b c d by simp
  then show ?thesis
    using s by (simp add: spec_keystream_block_def)
qed


section \<open>The stream loop\<close>

lemma update_loop_stream:
  "i \<le> length data \<Longrightarrow> length out = length data \<Longrightarrow>
   update_loop data i e out =
     (fst (stream e (drop i data)), take i out @ snd (stream e (drop i data)))"
proof (induction data i e out rule: update_loop.induct)
  case (1 data i e out)
  show ?case
  proof (cases "i < length data")
    case False
    with "1.prems" show ?thesis by (simp add: update_loop.simps)
  next
    case True
    let ?e1 = "if byteCounter e = 0 \<or> byteCounter e = 64 then new_block e else e"
    let ?y = "ToUint8 (js_xor (elem data i) (keystream ?e1 ! byteCounter ?e1))"
    let ?e2 = "?e1\<lparr>byteCounter := byteCounter ?e1 + 1\<rparr>"
    have d: "drop i data = data ! i # drop (i + 1) data"
      using True by (simp add: Cons_nth_drop_Suc)
    have "update_loop data i e out = update_loop data (i + 1) ?e2 (out[i := ?y])"
      using True by (subst update_loop.simps) (simp add: Let_def)
    also have "\<dots> = (fst (stream ?e2 (drop (i + 1) data)),
        take (i + 1) (out[i := ?y]) @ snd (stream ?e2 (drop (i + 1) data)))"
      using True "1.prems" by (intro "1.IH") simp_all
    also have "take (i + 1) (out[i := ?y]) = take i out @ [?y]"
      using True "1.prems" by (simp add: take_Suc_conv_app_nth)
    finally show ?thesis
      unfolding d by (simp add: Let_def split_beta elem_def)
  qed
qed

lemma update_stream:
  "xs \<noteq> [] \<Longrightarrow> update e (Uint8Array xs) = (fst (stream e xs), Inr (snd (stream e xs)))"
  by (simp add: update_def update_loop_stream Let_def split_beta)

lemma update_error:
  "\<not> instanceof_Uint8Array a \<or> bytes a = [] \<Longrightarrow>
   update e a = (e, Inl (Error ''Data should be type of bytes (Uint8Array) and not empty!''))"
  by (auto simp add: update_def)

lemma fst_update: "fst (update e a) = fst (stream e (bytes a))"
proof (cases "\<not> instanceof_Uint8Array a \<or> bytes a = []")
  case True
  then have "bytes a = []" by (cases a) auto
  with True show ?thesis by (simp add: update_error)
next
  case False
  then obtain xs where "a = Uint8Array xs" "xs \<noteq> []" by (cases a) auto
  then show ?thesis by (simp add: update_stream)
qed

lemma length_stream [simp]: "length (snd (stream e xs)) = length xs"
  by (induction xs arbitrary: e) (simp_all add: Let_def split_beta)

lemma stream_state_length:
  "length xs = length ys \<Longrightarrow> fst (stream e xs) = fst (stream e ys)"
proof (induction xs arbitrary: e ys)
  case Nil
  then show ?case by simp
next
  case (Cons x xs)
  then obtain y ys' where ys: "ys = y # ys'" "length xs = length ys'"
    by (cases ys) auto
  show ?case unfolding ys using Cons.IH [OF ys(2)] by (simp add: Let_def split_beta)
qed

lemma fst_stream_append:
  "fst (stream e (xs @ ys)) = fst (stream (fst (stream e xs)) ys)"
  by (induction xs arbitrary: e) (simp_all add: Let_def split_beta)

lemma snd_stream_append:
  "snd (stream e (xs @ ys)) = snd (stream e xs) @ snd (stream (fst (stream e xs)) ys)"
  by (induction xs arbitrary: e) (simp_all add: Let_def split_beta)

lemma scast_ucast_8: "(scast (w :: 32 word) :: 8 word) = ucast w"
  by (rule bit_word_eqI) (auto simp add: bit_simps)

lemma ToUint8_js_xor: "ToUint8 (js_xor (uint x) k) = x XOR word_of_int k"
proof -
  have "ToUint8 (js_xor (uint x) k) = ucast (w32 (uint x) XOR w32 k)"
    by (simp add: ToUint8_def js_xor_def scast_ucast_8)
  also have "\<dots> = ucast (w32 (uint x)) XOR ucast (w32 k)"
    by (rule bit_word_eqI) (auto simp add: bit_simps)
  also have "ucast (w32 (uint x)) = x"
    by (rule bit_word_eqI) (auto simp add: bit_simps)
  also have "(ucast (w32 k) :: 8 word) = word_of_int k"
    by (rule bit_word_eqI) (auto simp add: bit_simps)
  finally show ?thesis .
qed

lemma stream_involution: "snd (stream e (snd (stream e xs))) = xs"
  by (induction xs arbitrary: e) (simp_all add: Let_def split_beta ToUint8_js_xor xor.assoc)

section \<open>What a block and a call leave unchanged\<close>

lemma chacha_frame: "chacha e = e\<lparr>keystream := keystream (chacha e)\<rparr>"
  by (simp add: chacha_def Let_def split_beta)

lemma chacha_fields [simp]:
  "param (chacha e) = param e" "byteCounter (chacha e) = byteCounter e"
  "key (chacha e) = key e" "nonce (chacha e) = nonce e" "counter (chacha e) = counter e"
  by (simp_all add: chacha_def Let_def split_beta)

lemma new_block_fields [simp]:
  "param (new_block e) = (param e)[12 := param e ! 12 + 1]" "byteCounter (new_block e) = 0"
  "key (new_block e) = key e" "nonce (new_block e) = nonce e" "counter (new_block e) = counter e"
  "keystream (new_block e) = keystream (chacha e)"
  by (simp_all add: new_block_def Let_def)

lemma length_spec_double_round [simp]: "length (spec_double_round w) = length w"
  by (simp add: spec_double_round_def Let_def)

lemma length_funpow_spec_double_round [simp]: "length ((spec_double_round ^^ n) w) = length w"
  by (induction n) simp_all

lemma length_keystream_chacha:
  "length (param e) = 16 \<Longrightarrow> length (keystream e) = 64 \<Longrightarrow> length (keystream (chacha e)) = 64"
  by (simp add: chacha_keystream spec_keystream_block_def spec_block_def le_bytes_def
      length_concat comp_def sum_list_triv)

lemma engine_ok_new_block: "engine_ok e \<Longrightarrow> engine_ok (new_block e)"
  by (simp add: engine_ok_def length_keystream_chacha)

lemma engine_ok_stream: "engine_ok e \<Longrightarrow> engine_ok (fst (stream e xs))"
proof (induction xs arbitrary: e)
  case Nil
  then show ?case by simp
next
  case (Cons x xs)
  let ?e1 = "if byteCounter e = 0 \<or> byteCounter e = 64 then new_block e else e"
  have "engine_ok ?e1" using Cons.prems by (simp add: engine_ok_new_block)
  moreover have "byteCounter ?e1 < 64" using Cons.prems by (auto simp add: engine_ok_def)
  ultimately have "engine_ok (?e1\<lparr>byteCounter := byteCounter ?e1 + 1\<rparr>)"
    by (simp add: engine_ok_def)
  then have "engine_ok (fst (stream (?e1\<lparr>byteCounter := byteCounter ?e1 + 1\<rparr>) xs))"
    by (rule Cons.IH)
  then show ?case by (simp add: Let_def split_beta)
qed

lemma stream_fields [simp]:
  "key (fst (stream e xs)) = key e" "nonce (fst (stream e xs)) = nonce e"
  "counter (fst (stream e xs)) = counter e"
  by (induction xs arbitrary: e; simp add: Let_def split_beta)+

lemma stream_param_ex: "\<exists>v. param (fst (stream e xs)) = (param e)[12 := v]"
proof (induction xs arbitrary: e)
  case Nil
  have "param (fst (stream e [])) = (param e)[12 := param e ! 12]" by simp
  then show ?case by (rule exI)
next
  case (Cons x xs)
  let ?e1 = "if byteCounter e = 0 \<or> byteCounter e = 64 then new_block e else e"
  let ?e2 = "?e1\<lparr>byteCounter := byteCounter ?e1 + 1\<rparr>"
  obtain v where v: "param (fst (stream ?e2 xs)) = (param ?e2)[12 := v]"
    using Cons.IH by blast
  have "param ?e2 = (param e)[12 := (if byteCounter e = 0 \<or> byteCounter e = 64
           then param e ! 12 + 1 else param e ! 12)]"
    by simp
  then have "(param ?e2)[12 := v] = (param e)[12 := v]"
    by (simp only: list_update_overwrite)
  with v have "param (fst (stream e (x # xs))) = (param e)[12 := v]"
    by (simp add: Let_def split_beta)
  then show ?case by blast
qed

lemma stream_param:
  "length (param (fst (stream e xs))) = length (param e)"
  "i \<noteq> 12 \<Longrightarrow> param (fst (stream e xs)) ! i = param e ! i"
  using stream_param_ex [of e xs] by auto

lemma stream_count:
  assumes "engine_ok e"
  shows "param (fst (stream e xs)) ! 12 =
           param e ! 12 + int ((length xs + (if byteCounter e = 0 then 64 else byteCounter e) - 1) div 64)
       \<and> byteCounter (fst (stream e xs)) =
           (if xs = [] then byteCounter e
            else (length xs + (if byteCounter e = 0 then 64 else byteCounter e) - 1) mod 64 + 1)"
  using assms
proof (induction xs arbitrary: e)
  case Nil
  then show ?case by (auto simp add: engine_ok_def)
next
  case (Cons x xs)
  let ?e1 = "if byteCounter e = 0 \<or> byteCounter e = 64 then new_block e else e"
  let ?e2 = "?e1\<lparr>byteCounter := byteCounter ?e1 + 1\<rparr>"
  have ok1: "engine_ok ?e1" using Cons.prems by (simp add: engine_ok_new_block)
  have lt: "byteCounter ?e1 < 64" using Cons.prems by (auto simp add: engine_ok_def)
  have ok2: "engine_ok ?e2" using ok1 lt by (simp add: engine_ok_def)
  have l: "length (param e) = 16" using Cons.prems by (simp add: engine_ok_def)
  have bc: "byteCounter e \<le> 64" using Cons.prems by (simp add: engine_ok_def)
  note IH = Cons.IH [OF ok2]
  have s: "fst (stream e (x # xs)) = fst (stream ?e2 xs)" by (simp add: Let_def split_beta)
  show ?case
  proof (cases "byteCounter e = 0 \<or> byteCounter e = 64")
    case True
    then have p: "param ?e2 ! 12 = param e ! 12 + 1" "byteCounter ?e2 = 1"
      using l by auto
    have a: "(length xs + 1 - 1) div 64 + 1 = (length (x # xs) + 64 - 1) div 64" by simp
    have b: "xs \<noteq> [] \<Longrightarrow> (length xs + 1 - 1) mod 64 = (length (x # xs) + 64 - 1) mod 64" by simp
    show ?thesis unfolding s using IH p True a b by (cases xs) auto
  next
    case False
    then have p: "param ?e2 ! 12 = param e ! 12" "byteCounter ?e2 = byteCounter e + 1"
      by auto
    show ?thesis unfolding s using IH p False bc by (cases xs) auto
  qed
qed

section \<open>The constructor's words\<close>

lemma w32_uint_byte: "w32 (uint (b :: byte)) = ucast b"
  by simp

lemma byte_disjoint:
  "(ucast (a :: byte) :: 32 word) AND push_bit 8 w = 0"
proof (rule bit_word_eqI)
  fix n assume "n < LENGTH(32)"
  have "bit a n \<Longrightarrow> n < 8" using bit_imp_le_length [of a n] by simp
  then show "bit ((ucast a :: 32 word) AND push_bit 8 w) n = bit (0 :: 32 word) n"
    by (auto simp add: bit_and_iff bit_ucast_iff bit_push_bit_iff)
qed

lemma xor_or_bytes:
  "((ucast (b0 :: byte) XOR push_bit 8 (ucast (b1 :: byte))) XOR push_bit 16 (ucast (b2 :: byte)))
      XOR push_bit 24 (ucast (b3 :: byte))
   = (ucast b0 OR push_bit 8 (ucast b1) OR push_bit 16 (ucast b2) OR push_bit 24 (ucast b3) :: 32 word)"
proof (rule bit_word_eqI)
  fix n assume "n < LENGTH(32)"
  have b: "\<And>(b :: byte) m. bit b m \<Longrightarrow> m < 8"
    using bit_imp_le_length by fastforce
  have b0: "bit b0 n \<Longrightarrow> n < 8" by (rule b)
  have b1: "bit b1 (n - 8) \<Longrightarrow> n - 8 < 8" by (rule b)
  have b2: "bit b2 (n - 16) \<Longrightarrow> n - 16 < 8" by (rule b)
  have b3: "bit b3 (n - 24) \<Longrightarrow> n - 24 < 8" by (rule b)
  show "bit (((ucast b0 XOR push_bit 8 (ucast b1)) XOR push_bit 16 (ucast b2))
              XOR push_bit 24 (ucast b3) :: 32 word) n
      = bit (ucast b0 OR push_bit 8 (ucast b1) OR push_bit 16 (ucast b2)
              OR push_bit 24 (ucast b3) :: 32 word) n"
    unfolding bit_xor_iff bit_or_iff bit_push_bit_iff bit_ucast_iff
    using b0 b1 b2 b3 by auto
qed

lemma get32_le_word: "get32 data i = sint (le_word data i)"
proof -
  have m: "(8::nat) mod 32 = 8" "(16::nat) mod 32 = 16" "(24::nat) mod 32 = 24"
    by simp_all
  show ?thesis
    unfolding get32_def js_xor_def js_shl_def elem_def le_word_def of_int_sint scast_id
      w32_uint_byte m xor_or_bytes ..
qed

lemma sint_eq_uint_iff: "sint (w :: 32 word) = uint w \<longleftrightarrow> \<not> bit w 31"
proof
  assume "sint w = uint w"
  then have "\<not> sint w < 0" by simp
  then show "\<not> bit w 31" using bit_last_iff [of w] by simp
next
  assume "\<not> bit w 31"
  then have a: "0 \<le> sint w" using bit_last_iff [of w] by simp
  have "sint w < 2 ^ 32" using sint_less [of w] by simp
  then have "take_bit 32 (sint w) = sint w" using a by (simp add: take_bit_int_eq_self)
  then show "sint w = uint w" using uint_sint [of w] by simp
qed

lemma byte_high_bit: "bit (b :: byte) 7 \<longleftrightarrow> 0x80 \<le> b"
proof -
  have u: "0 \<le> uint b" "uint b < 256" using uint_lt2p [of b] by simp_all
  have "bit b 7 \<longleftrightarrow> bit (uint b) 7" by (simp add: bit_uint_iff)
  also have "\<dots> \<longleftrightarrow> odd (uint b div 128)" by (simp add: bit_iff_odd)
  also have "\<dots> \<longleftrightarrow> 128 \<le> uint b"
  proof -
    have "uint b div 128 = 0 \<or> uint b div 128 = 1" using u by auto
    moreover have "uint b div 128 = 1 \<longleftrightarrow> 128 \<le> uint b" using u by auto
    ultimately show ?thesis by auto
  qed
  also have "\<dots> \<longleftrightarrow> 0x80 \<le> b" by (simp add: word_le_def)
  finally show ?thesis .
qed

lemma le_word_high_bit: "bit (le_word bs i) 31 \<longleftrightarrow> 0x80 \<le> bs ! (i + 3)"
proof -
  have b: "\<And>(b :: byte) m. 8 \<le> m \<Longrightarrow> \<not> bit b m"
    using bit_imp_le_length by fastforce
  show ?thesis
    by (simp add: le_word_def bit_simps byte_high_bit b)
qed

lemma get32_unsigned_iff: "get32 data i = uint (le_word data i) \<longleftrightarrow> data ! (i + 3) < 0x80"
  by (simp add: get32_le_word sint_eq_uint_iff le_word_high_bit not_le)

section \<open>Runs of calls\<close>

lemma do_call_update: "do_call e c = update e (argument c)"
  by (cases c) (simp_all add: encrypt_def decrypt_def)

lemma fst_do_call: "fst (do_call e c) = fst (stream e (bytes (argument c)))"
  by (simp add: do_call_update fst_update)

lemma length_run [simp]: "length (run e cs) = length cs"
  by (induction cs arbitrary: e) (simp_all add: Let_def)

lemma run_eq_Nil [simp]: "run e cs = [] \<longleftrightarrow> cs = []"
  by (cases cs) (simp_all add: Let_def)

lemma final_Nil [simp]: "final e [] = e"
  by (simp add: final_def)

lemma final_Cons [simp]: "final e (c # cs) = final (fst (do_call e c)) cs"
  by (simp add: final_def Let_def)

lemma final_stream: "final e cs = fst (stream e (concat (map (bytes \<circ> argument) cs)))"
  by (induction cs arbitrary: e) (simp_all add: fst_do_call fst_stream_append)

lemma run_states:
  "map (\<lambda>c. length (bytes (argument c))) cs1 = map (\<lambda>c. length (bytes (argument c))) cs2 \<Longrightarrow>
   map fst (run e cs1) = map fst (run e cs2)"
proof (induction cs1 arbitrary: e cs2)
  case Nil
  then show ?case by simp
next
  case (Cons c cs1)
  then obtain d ds where cs2: "cs2 = d # ds" by (cases cs2) auto
  with Cons.prems have l: "length (bytes (argument c)) = length (bytes (argument d))"
    and r: "map (\<lambda>c. length (bytes (argument c))) cs1 = map (\<lambda>c. length (bytes (argument c))) ds"
    by simp_all
  have s: "fst (do_call e c) = fst (do_call e d)"
    unfolding fst_do_call using l by (rule stream_state_length)
  show ?case unfolding cs2 using Cons.IH [OF r, of "fst (do_call e d)"] s
    by (simp add: Let_def)
qed

lemma run_outputs:
  "map argument cs1 = map argument cs2 \<Longrightarrow> map snd (run e cs1) = map snd (run e cs2)"
proof (induction cs1 arbitrary: e cs2)
  case Nil
  then show ?case by simp
next
  case (Cons c cs1)
  then obtain d ds where cs2: "cs2 = d # ds" by (cases cs2) auto
  with Cons.prems have a: "argument c = argument d" and r: "map argument cs1 = map argument ds"
    by simp_all
  have s: "do_call e c = do_call e d" by (simp add: do_call_update a)
  show ?case unfolding cs2 using Cons.IH [OF r, of "fst (do_call e d)"] s
    by (simp add: Let_def)
qed

lemma run_roundtrip:
  "\<forall>P\<in>set Ps. P \<noteq> [] \<Longrightarrow>
   \<exists>Cs. map snd (run e (map (Encrypt \<circ> Uint8Array) Ps)) = map Inr Cs
      \<and> map length Cs = map length Ps
      \<and> map snd (run e (map (Decrypt \<circ> Uint8Array) Cs)) = map Inr Ps"
proof (induction Ps arbitrary: e)
  case Nil
  then show ?case by simp
next
  case (Cons P Ps)
  let ?C = "snd (stream e P)"
  let ?e' = "fst (stream e P)"
  have P: "P \<noteq> []" and Ps: "\<forall>P\<in>set Ps. P \<noteq> []" using Cons.prems by simp_all
  have C: "?C \<noteq> []" using P length_stream [of e P] by (metis length_0_conv)
  obtain Cs where Cs: "map snd (run ?e' (map (Encrypt \<circ> Uint8Array) Ps)) = map Inr Cs"
      "map length Cs = map length Ps"
      "map snd (run ?e' (map (Decrypt \<circ> Uint8Array) Cs)) = map Inr Ps"
    using Cons.IH [OF Ps, of ?e'] by blast
  have enc: "encrypt e (Uint8Array P) = (?e', Inr ?C)"
    using P by (simp add: encrypt_def update_stream)
  have "fst (stream e ?C) = ?e'" by (rule stream_state_length) simp
  then have dec: "decrypt e (Uint8Array ?C) = (?e', Inr P)"
    using C by (simp add: decrypt_def update_stream stream_involution)
  have "map snd (run e (map (Encrypt \<circ> Uint8Array) (P # Ps))) = map Inr (?C # Cs)
      \<and> map length (?C # Cs) = map length (P # Ps)
      \<and> map snd (run e (map (Decrypt \<circ> Uint8Array) (?C # Cs))) = map Inr (P # Ps)"
    using Cs enc dec by (simp add: Let_def)
  then show ?case by blast
qed

lemma Chacha20_Inr:
  "Chacha20 k n c = Inr e \<Longrightarrow>
     instanceof_Uint8Array k \<and> length (bytes k) = 32 \<and> instanceof_Uint8Array n \<and> length (bytes n) = 12
   \<and> e = \<lparr> key = bytes k, nonce = bytes n, counter = (case c of None \<Rightarrow> 0 | Some v \<Rightarrow> v),
           param = [0x61707865, 0x3320646e, 0x79622d32, 0x6b206574,
                    get32 (bytes k) 0, get32 (bytes k) 4, get32 (bytes k) 8,
                    get32 (bytes k) 12, get32 (bytes k) 16, get32 (bytes k) 20,
                    get32 (bytes k) 24, get32 (bytes k) 28,
                    (case c of None \<Rightarrow> 0 | Some v \<Rightarrow> v),
                    get32 (bytes n) 0, get32 (bytes n) 4, get32 (bytes n) 8],
           keystream = replicate 64 0, byteCounter = 0 \<rparr>"
  by (auto simp add: Chacha20_def sigma_def Let_def split: if_splits option.splits)

lemma Chacha20_ok: "Chacha20 k n c = Inr e \<Longrightarrow> engine_ok e \<and> byteCounter e = 0 \<and> param e ! 12 = counter e"
  by (drule Chacha20_Inr) (auto simp add: engine_ok_def)


section \<open>Engines the constructor returns\<close>

lemma Chacha20_Inr_ex:
  "instanceof_Uint8Array k \<Longrightarrow> length (bytes k) = 32 \<Longrightarrow> instanceof_Uint8Array n \<Longrightarrow>
   length (bytes n) = 12 \<Longrightarrow> \<exists>e. Chacha20 k n c = Inr e"
  by (simp add: Chacha20_def Let_def)

lemma get32_zero: "i + 3 < m \<Longrightarrow> get32 (replicate m 0) i = 0"
  by (simp add: get32_le_word le_word_def)

lemma Chacha20_zero:
  "Chacha20 (Uint8Array (replicate 32 0)) (Uint8Array (replicate 12 0)) c =
     Inr \<lparr> key = replicate 32 0, nonce = replicate 12 0,
           counter = (case c of None \<Rightarrow> 0 | Some v \<Rightarrow> v),
           param = [1634760805, 857760878, 2036477234, 1797285236, 0, 0, 0, 0, 0, 0, 0, 0,
                    (case c of None \<Rightarrow> 0 | Some v \<Rightarrow> v), 0, 0, 0],
           keystream = replicate 64 0, byteCounter = 0 \<rparr>"
  by (simp add: Chacha20_def Let_def sigma_def get32_zero split: option.split)

lemma ToUint32_sint: "ToUint32 (sint (w :: 32 word)) = uint w"
  by (simp add: ToUint32_def)


section \<open>States along a run\<close>

lemma final_same_lengths:
  assumes "map (\<lambda>c. length (bytes (argument c))) cs1 = map (\<lambda>c. length (bytes (argument c))) cs2"
  shows "final e cs1 = final e cs2"
proof -
  have "sum_list (map (\<lambda>c. length (bytes (argument c))) cs1)
      = sum_list (map (\<lambda>c. length (bytes (argument c))) cs2)"
    using assms by (rule arg_cong)
  then have "length (concat (map (bytes \<circ> argument) cs1)) = length (concat (map (bytes \<circ> argument) cs2))"
    by (simp add: length_concat comp_def)
  then show ?thesis
    unfolding final_stream by (rule stream_state_length)
qed

lemma run_member_final:
  "r \<in> set (run e cs) \<Longrightarrow> \<exists>pre. fst r = final e pre"
proof (induction cs arbitrary: e)
  case Nil
  then show ?case by simp
next
  case (Cons c cs)
  show ?case
  proof (cases "r = do_call e c")
    case True
    then have "fst r = final e [c]" by simp
    then show ?thesis by blast
  next
    case False
    with Cons.prems have "r \<in> set (run (fst (do_call e c)) cs)" by (simp add: Let_def)
    then obtain pre where "fst r = final (fst (do_call e c)) pre" using Cons.IH by blast
    then have "fst r = final e (c # pre)" by simp
    then show ?thesis by blast
  qed
qed

lemma final_fields:
  "key (final e cs) = key e" "nonce (final e cs) = nonce e" "counter (final e cs) = counter e"
  "length (param (final e cs)) = length (param e)"
  "i \<noteq> 12 \<Longrightarrow> param (final e cs) ! i = param e ! i"
  by (simp_all add: final_stream stream_param)

lemma final_counter_word:
  assumes "engine_ok e" "byteCounter e = 0"
  shows "param (final e cs) ! 12 =
     param e ! 12 + int ((sum_list (map (\<lambda>c. length (bytes (argument c))) cs) + 63) div 64)"
proof -
  have "length (concat (map (bytes \<circ> argument) cs)) = sum_list (map (\<lambda>c. length (bytes (argument c))) cs)"
    by (simp add: length_concat comp_def)
  then show ?thesis
    unfolding final_stream using stream_count [OF assms(1), of "concat (map (bytes \<circ> argument) cs)"] assms(2)
    by simp
qed

lemma chacha_counter_mod:
  assumes "engine_ok e"
  shows "keystream (chacha (e\<lparr>param := (param e)[12 := param e ! 12 mod 2 ^ 32]\<rparr>)) = keystream (chacha e)"
proof -
  have "w32 (param e ! 12 mod 2 ^ 32) = w32 (param e ! 12)"
    by (simp add: word_of_int_eq_iff take_bit_eq_mod)
  then have "map w32 ((param e)[12 := param e ! 12 mod 2 ^ 32]) = map w32 (param e)"
    using assms by (simp add: map_update list_update_same_conv engine_ok_def)
  then show ?thesis using assms by (simp add: chacha_keystream engine_ok_def)
qed


section \<open>Reachable states are in the exact range\<close>

lemma get32_range: "- (2 ^ 50) \<le> get32 data i \<and> get32 data i < 2 ^ 50"
proof -
  have "- (2 ^ 31) \<le> sint (le_word data i)" "sint (le_word data i) < 2 ^ 31"
    using sint_greater_eq [of "le_word data i"] sint_less [of "le_word data i"] by simp_all
  then show ?thesis unfolding get32_le_word by simp
qed

lemma final_param:
  "param (final e cs) = (param e)[12 := param (final e cs) ! 12]"
proof -
  obtain v where v: "param (final e cs) = (param e)[12 := v]"
    unfolding final_stream using stream_param_ex by blast
  show ?thesis
  proof (cases "12 < length (param e)")
    case True
    then show ?thesis using v by simp
  next
    case False
    then show ?thesis using v by (simp add: list_update_beyond not_less)
  qed
qed

lemma exact_reachable:
  assumes "Chacha20 k n c = Inr e" and "0 \<le> counter e" and "counter e < 2 ^ 32"
    and "sum_list (map (\<lambda>c. length (bytes (argument c))) cs) < 2 ^ 53"
  shows "exact (param (final e cs))"
proof -
  let ?N = "sum_list (map (\<lambda>c. length (bytes (argument c))) cs)"
  have ok: "engine_ok e" "byteCounter e = 0" "param e ! 12 = counter e"
    using Chacha20_ok [OF assms(1)] by simp_all
  have w: "param (final e cs) ! 12 = counter e + int ((?N + 63) div 64)"
    using final_counter_word [OF ok(1,2), of cs] ok(3) by simp
  have "(?N + 63) div 64 < 2 ^ 48" using assms(4) by simp
  then have "int ((?N + 63) div 64) < 2 ^ 48" by (metis of_nat_less_iff of_nat_numeral of_nat_power)
  then have b: "- (2 ^ 50) \<le> param (final e cs) ! 12" "param (final e cs) ! 12 < 2 ^ 50"
    unfolding w using assms(2,3) by simp_all
  have p: "param (final e cs) = (param e)[12 := param (final e cs) ! 12]"
    by (rule final_param)
  show ?thesis
    using Chacha20_Inr [OF assms(1)] b get32_range
    by (subst p) (simp add: exact_def)
qed

section \<open>The loop on the store\<close>

lemma update_loop_heap_pure:
  assumes "data \<noteq> out" "out < length h"
  shows "update_loop_heap data out i e h =
      (fst (update_loop (h ! data) i e (h ! out)), h[out := snd (update_loop (h ! data) i e (h ! out))])"
  using assms
proof (induction data out i e h rule: update_loop_heap.induct)
  case (1 data out i e h)
  show ?case
  proof (cases "i < length (h ! data)")
    case False
    then show ?thesis
      by (simp add: update_loop_heap.simps update_loop.simps)
  next
    case True
    let ?e1 = "if byteCounter e = 0 \<or> byteCounter e = 64 then new_block e else e"
    let ?y = "ToUint8 (js_xor (elem (h ! data) i) (keystream ?e1 ! byteCounter ?e1))"
    let ?h = "h[out := (h ! out)[i := ?y]]"
    let ?e2 = "?e1\<lparr>byteCounter := byteCounter ?e1 + 1\<rparr>"
    have hd: "?h ! data = h ! data" using "1.prems" by simp
    have ho: "?h ! out = (h ! out)[i := ?y]" using "1.prems" by simp
    have "update_loop_heap data out i e h = update_loop_heap data out (i + 1) ?e2 ?h"
      using True by (subst update_loop_heap.simps) (simp add: Let_def)
    also have "\<dots> = (fst (update_loop (?h ! data) (i + 1) ?e2 (?h ! out)),
                      ?h[out := snd (update_loop (?h ! data) (i + 1) ?e2 (?h ! out))])"
      using True "1.prems" by (intro "1.IH") simp_all
    also have "\<dots> = (fst (update_loop (h ! data) (i + 1) ?e2 ((h ! out)[i := ?y])),
                      h[out := snd (update_loop (h ! data) (i + 1) ?e2 ((h ! out)[i := ?y]))])"
      unfolding hd ho by simp
    also have "update_loop (h ! data) (i + 1) ?e2 ((h ! out)[i := ?y]) = update_loop (h ! data) i e (h ! out)"
      using True by (subst (2) update_loop.simps) (simp add: Let_def)
    finally show ?thesis .
  qed
qed


lemma update_heap_result:
  assumes "r < length h" "h ! r \<noteq> []"
  shows "\<exists>h' e' out. update_heap h e (Ref r) = (h', e', Inr out)
      \<and> out = length h \<and> length h' = length h + 1
      \<and> (\<forall>r' < length h. h' ! r' = h ! r')
      \<and> length (h' ! out) = length (h ! r)
      \<and> update e (Uint8Array (h ! r)) = (e', Inr (h' ! out))"
proof -
  let ?n = "length (h ! r)"
  let ?h1 = "h @ [replicate ?n 0]"
  let ?res = "update_loop (h ! r) 0 e (replicate ?n 0)"
  have r1: "?h1 ! r = h ! r" using assms(1) by (simp add: nth_append)
  have o1: "?h1 ! length h = replicate ?n 0" by simp
  have loop: "update_loop_heap r (length h) 0 e ?h1 = (fst ?res, ?h1[length h := snd ?res])"
    using update_loop_heap_pure [of r "length h" ?h1 0 e] assms(1) unfolding r1 o1 by simp
  have u: "update_heap h e (Ref r) = (?h1[length h := snd ?res], fst ?res, Inr (length h))"
    using assms(2) by (simp add: update_heap_def new_Uint8Array_def r1 loop)
  have l: "length (snd ?res) = ?n"
    by (simp add: update_loop_stream)
  have p: "update e (Uint8Array (h ! r)) = (fst ?res, Inr (snd ?res))"
    using assms(2) by (simp add: update_def split_beta Let_def)
  show ?thesis
    using u l p by (simp add: nth_append)
qed

section \<open>A test vector\<close>

text \<open>
  The key, nonce and counter of the repository's reference test (RFC 7539, section
  2.4.2): the first four bytes of the first keystream block are \<open>22 4f 51 f3\<close>.
\<close>

lemma reference_block_first_bytes:
  "take 4 (keystream (chacha \<lparr> key = map of_nat [0..<32],
       nonce = [0, 0, 0, 0, 0, 0, 0, 0x4a, 0, 0, 0, 0], counter = 1,
       param = [1634760805, 857760878, 2036477234, 1797285236, 50462976, 117835012,
                185207048, 252579084, 319951120, 387323156, 454695192, 522067228, 1, 0,
                1241513984, 0],
       keystream = replicate 64 0, byteCounter = 0 \<rparr>))
   = [0x22, 0x4f, 0x51, 0xf3]"
  by code_simp

section \<open>Claim C1: decrypting what was encrypted\<close>

text \<open>
  Claim C1. For every valid 32-byte key, 12-byte nonce, initial counter and non-empty
  plaintexts: when an engine built from (key, nonce, counter) encrypts the plaintexts
  \<open>Ps\<close> call by call, every call returns an array, and a second engine built
  independently from the same (key, nonce, counter) that decrypts the returned
  ciphertexts call by call returns the plaintexts \<open>Ps\<close>. Both engines may have served
  earlier calls (\<open>pre1\<close>, \<open>pre2\<close>) as long as the lengths of those calls agree. A single
  plaintext \<open>P\<close> is the case \<open>Ps = [P]\<close>.
\<close>
theorem encrypt_decrypt_roundtrip:
  assumes "Chacha20 k n c = Inr e1" and "Chacha20 k n c = Inr e2"
    and "map (\<lambda>c. length (bytes (argument c))) pre1 = map (\<lambda>c. length (bytes (argument c))) pre2"
    and "\<forall>P\<in>set Ps. P \<noteq> []"
  shows "\<exists>Cs. map snd (run (final e1 pre1) (map (Encrypt \<circ> Uint8Array) Ps)) = map Inr Cs
      \<and> map length Cs = map length Ps
      \<and> map snd (run (final e2 pre2) (map (Decrypt \<circ> Uint8Array) Cs)) = map Inr Ps"
proof -
  have "e1 = e2" using assms(1,2) by simp
  then have "final e1 pre1 = final e2 pre2"
    using final_same_lengths [OF assms(3), of e1] by simp
  then show ?thesis using run_roundtrip [OF assms(4), of "final e1 pre1"] by simp
qed

theorem encrypt_decrypt_roundtrip_witness:
  "\<exists>Cs. map snd (run (final \<lparr> key = replicate 32 0, nonce = replicate 12 0, counter = 7,
           param = [1634760805, 857760878, 2036477234, 1797285236, 0, 0, 0, 0, 0, 0, 0, 0,
                    7, 0, 0, 0],
           keystream = replicate 64 0, byteCounter = 0 \<rparr> [Encrypt (Uint8Array [1, 2])])
         (map (Encrypt \<circ> Uint8Array) [[72, 105], [33]])) = map Inr Cs
      \<and> map length Cs = map length [[72, 105], [33 :: byte]]
      \<and> map snd (run (final \<lparr> key = replicate 32 0, nonce = replicate 12 0, counter = 7,
           param = [1634760805, 857760878, 2036477234, 1797285236, 0, 0, 0, 0, 0, 0, 0, 0,
                    7, 0, 0, 0],
           keystream = replicate 64 0, byteCounter = 0 \<rparr> [Decrypt (Uint8Array [9, 9])])
         (map (Decrypt \<circ> Uint8Array) Cs)) = map Inr [[72, 105], [33]]"
  using encrypt_decrypt_roundtrip [of "Uint8Array (replicate 32 0)" "Uint8Array (replicate 12 0)"
      "Some 7" _ _ "[Encrypt (Uint8Array [1, 2])]" "[Decrypt (Uint8Array [9, 9])]" "[[72, 105], [33]]"]
  by (simp add: Chacha20_zero)

section \<open>Claim C2: the block function\<close>

text \<open>
  Claim C2. The block function maps the current 16-word state to one 64-byte keystream
  block as the specification describes it: the state is copied into a working buffer,
  ten double-rounds of quarter-rounds are applied (the column groups, then the diagonal
  groups, each quarter-round being the additions, exclusive-ors and left rotations by
  16, 12, 8 and 7 modulo \<open>2^32\<close>), the original state is added word by word modulo
  \<open>2^32\<close>, and each of the 16 words is serialised least-significant byte first. The
  numbers that \<open>chacha\<close> leaves in the keystream block are exactly the bytes of
  \<open>spec_keystream_block\<close> on the parameter words read modulo \<open>2^32\<close>, for every
  well-formed engine whose parameter words are in the exact range.
\<close>
theorem chacha_is_spec_block:
  "engine_ok e \<Longrightarrow> exact (param e) \<Longrightarrow>
   keystream (chacha e) = map uint (spec_keystream_block (map w32 (param e)))"
  by (simp add: engine_ok_def chacha_keystream)

theorem chacha_is_spec_block_witness:
  "engine_ok \<lparr> key = map of_nat [0..<32], nonce = [0, 0, 0, 0, 0, 0, 0, 0x4a, 0, 0, 0, 0],
       counter = 1,
       param = [1634760805, 857760878, 2036477234, 1797285236, 50462976, 117835012,
                185207048, 252579084, 319951120, 387323156, 454695192, 522067228, 1, 0,
                1241513984, 0],
       keystream = replicate 64 0, byteCounter = 0 \<rparr>
   \<and> keystream (chacha \<lparr> key = map of_nat [0..<32],
       nonce = [0, 0, 0, 0, 0, 0, 0, 0x4a, 0, 0, 0, 0], counter = 1,
       param = [1634760805, 857760878, 2036477234, 1797285236, 50462976, 117835012,
                185207048, 252579084, 319951120, 387323156, 454695192, 522067228, 1, 0,
                1241513984, 0],
       keystream = replicate 64 0, byteCounter = 0 \<rparr>)
     = map uint (spec_keystream_block (map w32
         [1634760805, 857760878, 2036477234, 1797285236, 50462976, 117835012,
          185207048, 252579084, 319951120, 387323156, 454695192, 522067228, 1, 0,
          1241513984, 0]))"
  using chacha_is_spec_block [of "\<lparr> key = map of_nat [0..<32],
       nonce = [0, 0, 0, 0, 0, 0, 0, 0x4a, 0, 0, 0, 0], counter = 1,
       param = [1634760805, 857760878, 2036477234, 1797285236, 50462976, 117835012,
                185207048, 252579084, 319951120, 387323156, 454695192, 522067228, 1, 0,
                1241513984, 0],
       keystream = replicate 64 0, byteCounter = 0 \<rparr>"]
  by (simp add: engine_ok_def exact_def)

section \<open>Claim C3: the state the constructor builds\<close>

text \<open>
  Claim C3. The constructor builds the 16-word state as: words 0..3 the four constants
  \<open>0x61707865\<close>, \<open>0x3320646e\<close>, \<open>0x79622d32\<close>, \<open>0x6b206574\<close>; words 4..11 the 32 key
  bytes taken four at a time, least-significant byte first; word 12 the initial counter;
  words 13..15 the 12 nonce bytes taken four at a time in the same way, each word
  assembled from bytes \<open>b0, b1, b2, b3\<close> being \<open>b0 | (b1<<8) | (b2<<16) | (b3<<24)\<close> as
  an unsigned 32-bit value.

  The code has the layout, the constants, the counter word and the byte order of the
  claim, and every word of the state read modulo \<open>2^32\<close> is the claimed value. The number
  it stores for a key or nonce word is the claimed value exactly when the fourth byte of
  the word is below \<open>0x80\<close>: for a fourth byte of \<open>0x80\<close> or more \<^verbatim>\<open>_get32\<close> returns the
  claimed value minus \<open>2^32\<close>, although it is described as \<^verbatim>\<open>Little-endian to uint 32\<close>;
  it lacks the \<^verbatim>\<open>>>> 0\<close> that \<^verbatim>\<open>_quarterround\<close> applies to its words. The theorem states
  what the constructor stores.
\<close>
theorem param_layout_signed_words:
  assumes "Chacha20 (Uint8Array kb) (Uint8Array nb) c = Inr e"
  shows "param e = [0x61707865, 0x3320646e, 0x79622d32, 0x6b206574]
            @ map (\<lambda>j. sint (le_word kb (4 * j))) [0..<8]
            @ [case c of None \<Rightarrow> 0 | Some v \<Rightarrow> v]
            @ map (\<lambda>j. sint (le_word nb (4 * j))) [0..<3]
      \<and> map ToUint32 (param e) = [0x61707865, 0x3320646e, 0x79622d32, 0x6b206574]
            @ map (\<lambda>j. uint (le_word kb (4 * j))) [0..<8]
            @ [ToUint32 (case c of None \<Rightarrow> 0 | Some v \<Rightarrow> v)]
            @ map (\<lambda>j. uint (le_word nb (4 * j))) [0..<3]
      \<and> (\<forall>j<8. param e ! (4 + j) = uint (le_word kb (4 * j)) \<longleftrightarrow> kb ! (4 * j + 3) < 0x80)
      \<and> (\<forall>j<3. param e ! (13 + j) = uint (le_word nb (4 * j)) \<longleftrightarrow> nb ! (4 * j + 3) < 0x80)"
proof -
  have u8: "[0..<8] = [0, 1, 2, 3, 4, 5, 6, 7]" by (simp add: upt_rec)
  have u3: "[0..<3] = [0, 1, 2]" by (simp add: upt_rec)
  have p: "param e = [0x61707865, 0x3320646e, 0x79622d32, 0x6b206574]
            @ map (\<lambda>j. sint (le_word kb (4 * j))) [0..<8]
            @ [case c of None \<Rightarrow> 0 | Some v \<Rightarrow> v]
            @ map (\<lambda>j. sint (le_word nb (4 * j))) [0..<3]"
    using Chacha20_Inr [OF assms] unfolding u8 u3 by (simp add: get32_le_word)
  have "ToUint32 1634760805 = 1634760805" "ToUint32 857760878 = 857760878"
    "ToUint32 2036477234 = 2036477234" "ToUint32 1797285236 = 1797285236"
    by (simp_all add: ToUint32_def)
  then have q: "map ToUint32 (param e) = [0x61707865, 0x3320646e, 0x79622d32, 0x6b206574]
            @ map (\<lambda>j. uint (le_word kb (4 * j))) [0..<8]
            @ [ToUint32 (case c of None \<Rightarrow> 0 | Some v \<Rightarrow> v)]
            @ map (\<lambda>j. uint (le_word nb (4 * j))) [0..<3]"
    unfolding p by (simp add: ToUint32_sint comp_def)
  have k: "\<forall>j<8. param e ! (4 + j) = uint (le_word kb (4 * j)) \<longleftrightarrow> kb ! (4 * j + 3) < 0x80"
  proof (intro allI impI)
    fix j :: nat assume "j < 8"
    then have "param e ! (4 + j) = get32 kb (4 * j)"
      unfolding p by (simp add: nth_append get32_le_word)
    then show "param e ! (4 + j) = uint (le_word kb (4 * j)) \<longleftrightarrow> kb ! (4 * j + 3) < 0x80"
      by (simp add: get32_unsigned_iff)
  qed
  have n: "\<forall>j<3. param e ! (13 + j) = uint (le_word nb (4 * j)) \<longleftrightarrow> nb ! (4 * j + 3) < 0x80"
  proof (intro allI impI)
    fix j :: nat assume "j < 3"
    then have "param e ! (13 + j) = get32 nb (4 * j)"
      unfolding p by (simp add: nth_append get32_le_word)
    then show "param e ! (13 + j) = uint (le_word nb (4 * j)) \<longleftrightarrow> nb ! (4 * j + 3) < 0x80"
      by (simp add: get32_unsigned_iff)
  qed
  from p q k n show ?thesis by blast
qed

theorem param_layout_signed_words_witness:
  "map_sum id param
     (Chacha20 (Uint8Array [0x01, 0x02, 0x03, 0x84, 0x05, 0x06, 0x07, 0x08, 0x09, 0x0a, 0x0b,
                            0x0c, 0x0d, 0x0e, 0x0f, 0x10, 0x11, 0x12, 0x13, 0x14, 0x15, 0x16,
                            0x17, 0x18, 0x19, 0x1a, 0x1b, 0x1c, 0x1d, 0x1e, 0x1f, 0x20])
               (Uint8Array [0, 0, 0, 0, 0, 0, 0, 0x4a, 0, 0, 0, 0xff]) (Some 1))
   = Inr [1634760805, 857760878, 2036477234, 1797285236,
          - 2080177663, 134678021, 202050057, 269422093, 336794129, 404166165, 471538201,
          538910237, 1, 0, 1241513984, - 16777216]
   \<and> uint (le_word [0x01, 0x02, 0x03, 0x84, 0x05, 0x06, 0x07, 0x08, 0x09, 0x0a, 0x0b,
                     0x0c, 0x0d, 0x0e, 0x0f, 0x10, 0x11, 0x12, 0x13, 0x14, 0x15, 0x16,
                     0x17, 0x18, 0x19, 0x1a, 0x1b, 0x1c, 0x1d, 0x1e, 0x1f, 0x20] 0) = 2214789633
   \<and> uint (le_word [0, 0, 0, 0, 0, 0, 0, 0x4a, 0, 0, 0, 0xff] 8) = 4278190080"
proof -
  let ?K = "[0x01, 0x02, 0x03, 0x84, 0x05, 0x06, 0x07, 0x08, 0x09, 0x0a, 0x0b,
             0x0c, 0x0d, 0x0e, 0x0f, 0x10, 0x11, 0x12, 0x13, 0x14, 0x15, 0x16,
             0x17, 0x18, 0x19, 0x1a, 0x1b, 0x1c, 0x1d, 0x1e, 0x1f, 0x20] :: byte list"
  let ?N = "[0, 0, 0, 0, 0, 0, 0, 0x4a, 0, 0, 0, 0xff] :: byte list"
  obtain e where e: "Chacha20 (Uint8Array ?K) (Uint8Array ?N) (Some 1) = Inr e"
    using Chacha20_Inr_ex [of "Uint8Array ?K" "Uint8Array ?N" "Some 1"] by auto
  have k: "map (\<lambda>j. sint (le_word ?K (4 * j))) [0..<8] =
      [- 2080177663, 134678021, 202050057, 269422093, 336794129, 404166165, 471538201, 538910237]"
    by code_simp
  have n: "map (\<lambda>j. sint (le_word ?N (4 * j))) [0..<3] = [0, 1241513984, - 16777216]"
    by code_simp
  have u: "uint (le_word ?K 0) = 2214789633" "uint (le_word ?N 8) = 4278190080"
    by code_simp+
  have "param e = [1634760805, 857760878, 2036477234, 1797285236,
          - 2080177663, 134678021, 202050057, 269422093, 336794129, 404166165, 471538201,
          538910237, 1, 0, 1241513984, - 16777216]"
    using param_layout_signed_words [OF e] unfolding k n by simp
  then show ?thesis unfolding e using u by simp
qed

text \<open>
  The smallest such input: with key byte 3 equal to \<open>0x80\<close> and all other bytes zero,
  word 4 of the state is \<open>-2147483648\<close>, while the unsigned little-endian value of the
  four bytes is \<open>2147483648\<close>. This is evaluated from the definitions of the constructor
  and of \<open>get32\<close> alone.
\<close>

lemma high_byte_word_evaluation:
  "Chacha20 (Uint8Array [0, 0, 0, 0x80, 0, 0, 0, 0, 0, 0, 0, 0, 0, 0, 0, 0,
                         0, 0, 0, 0, 0, 0, 0, 0, 0, 0, 0, 0, 0, 0, 0, 0])
            (Uint8Array [0, 0, 0, 0, 0, 0, 0, 0, 0, 0, 0, 0]) None
     = Inr \<lparr> key = [0, 0, 0, 0x80, 0, 0, 0, 0, 0, 0, 0, 0, 0, 0, 0, 0,
                    0, 0, 0, 0, 0, 0, 0, 0, 0, 0, 0, 0, 0, 0, 0, 0],
             nonce = [0, 0, 0, 0, 0, 0, 0, 0, 0, 0, 0, 0], counter = 0,
             param = [1634760805, 857760878, 2036477234, 1797285236,
                      - 2147483648, 0, 0, 0, 0, 0, 0, 0, 0, 0, 0, 0],
             keystream = replicate 64 0, byteCounter = 0 \<rparr>
   \<and> uint (le_word [0, 0, 0, 0x80, 0, 0, 0, 0, 0, 0, 0, 0, 0, 0, 0, 0,
                     0, 0, 0, 0, 0, 0, 0, 0, 0, 0, 0, 0, 0, 0, 0, 0] 0) = 2147483648
   \<and> get32 [0, 0, 0, 0x80, 0, 0, 0, 0, 0, 0, 0, 0, 0, 0, 0, 0,
             0, 0, 0, 0, 0, 0, 0, 0, 0, 0, 0, 0, 0, 0, 0, 0] 0
       \<noteq> uint (le_word [0, 0, 0, 0x80, 0, 0, 0, 0, 0, 0, 0, 0, 0, 0, 0, 0,
                           0, 0, 0, 0, 0, 0, 0, 0, 0, 0, 0, 0, 0, 0, 0, 0] 0)"
  by (simp add: Chacha20_def Let_def sigma_def get32_def js_xor_def js_shl_def elem_def le_word_def)

section \<open>Claim C4: the counter word\<close>

text \<open>
  Claim C4, as the code has it. The counter word (state word 12) is incremented by
  exactly 1 each time a new 64-byte keystream block is generated, as a plain number that
  is not reduced modulo \<open>2^32\<close>: after the calls \<open>cs\<close> on an engine fresh from the
  constructor it is the initial counter plus the number of blocks, the total number of
  bytes divided by 64 and rounded up (for a 32-bit initial counter and fewer than
  \<open>2^53\<close> bytes, where the numbers are exact). In particular, after exactly 4096 bytes
  starting from counter 0 the counter word equals 64. The block function reads the word
  modulo \<open>2^32\<close>, so the keystream is the one a wrapping counter gives.
\<close>
theorem counter_word_counts_blocks:
  assumes "Chacha20 k n c = Inr e"
    and "0 \<le> counter e" and "counter e < 2 ^ 32"
    and "sum_list (map (\<lambda>c. length (bytes (argument c))) cs) < 2 ^ 53"
  shows "counter e = (case c of None \<Rightarrow> 0 | Some v \<Rightarrow> v)
     \<and> param (final e cs) ! 12 = counter e
           + int ((sum_list (map (\<lambda>c. length (bytes (argument c))) cs) + 63) div 64)
     \<and> (counter e = 0 \<and> sum_list (map (\<lambda>c. length (bytes (argument c))) cs) = 4096
          \<longrightarrow> param (final e cs) ! 12 = 64)
     \<and> exact (param (final e cs))
     \<and> (\<forall>e'. engine_ok e' \<and> exact (param e') \<longrightarrow>
           param (new_block e') ! 12 = param e' ! 12 + 1)
     \<and> (\<forall>e'. engine_ok e' \<and> exact (param e') \<longrightarrow>
           keystream (chacha (e'\<lparr>param := (param e')[12 := param e' ! 12 mod 2 ^ 32]\<rparr>))
             = keystream (chacha e'))"
proof -
  have ok: "engine_ok e" "byteCounter e = 0" "param e ! 12 = counter e"
    using Chacha20_ok [OF assms(1)] by simp_all
  have cnt: "counter e = (case c of None \<Rightarrow> 0 | Some v \<Rightarrow> v)"
    using Chacha20_Inr [OF assms(1)] by simp
  have f: "param (final e cs) ! 12 = counter e
           + int ((sum_list (map (\<lambda>c. length (bytes (argument c))) cs) + 63) div 64)"
    using final_counter_word [OF ok(1,2), of cs] ok(3) by simp
  have g: "\<forall>e'. engine_ok e' \<and> exact (param e') \<longrightarrow>
      param (new_block e') ! 12 = param e' ! 12 + 1"
    by (simp add: engine_ok_def)
  have x: "exact (param (final e cs))"
    using assms by (rule exact_reachable)
  show ?thesis using cnt f g x chacha_counter_mod by auto
qed

theorem counter_word_counts_blocks_witness:
  "param (final \<lparr> key = replicate 32 0, nonce = replicate 12 0, counter = 0,
           param = [1634760805, 857760878, 2036477234, 1797285236, 0, 0, 0, 0, 0, 0, 0, 0,
                    0, 0, 0, 0],
           keystream = replicate 64 0, byteCounter = 0 \<rparr>
        [Encrypt (Uint8Array (replicate 4096 0))]) ! 12 = 64"
proof -
  let ?e = "\<lparr> key = replicate 32 0, nonce = replicate 12 0, counter = 0,
           param = [1634760805, 857760878, 2036477234, 1797285236, 0, 0, 0, 0, 0, 0, 0, 0,
                    0, 0, 0, 0],
           keystream = replicate 64 0, byteCounter = 0 \<rparr>"
  have c: "Chacha20 (Uint8Array (replicate 32 0)) (Uint8Array (replicate 12 0)) None = Inr ?e"
    using Chacha20_zero [of None] by simp
  have "sum_list (map (\<lambda>c. length (bytes (argument c))) [Encrypt (Uint8Array (replicate 4096 0))])
        < (2 :: nat) ^ 53"
    by simp
  then show ?thesis
    using counter_word_counts_blocks [OF c, of "[Encrypt (Uint8Array (replicate 4096 0))]"]
    by simp
qed

text \<open>
  The counter word does not wrap: from the initial counter \<open>2^32 - 1\<close>, encrypting one
  byte generates one block and leaves \<open>2^32\<close> in word 12, where a counter wrapping modulo
  \<open>2^32\<close> would hold 0.
\<close>

theorem counter_word_wrap_counterexample:
  "Chacha20 (Uint8Array (replicate 32 0)) (Uint8Array (replicate 12 0)) (Some 4294967295)
     = Inr \<lparr> key = replicate 32 0, nonce = replicate 12 0, counter = 4294967295,
           param = [1634760805, 857760878, 2036477234, 1797285236, 0, 0, 0, 0, 0, 0, 0, 0,
                    4294967295, 0, 0, 0],
           keystream = replicate 64 0, byteCounter = 0 \<rparr>
   \<and> param (final \<lparr> key = replicate 32 0, nonce = replicate 12 0, counter = 4294967295,
           param = [1634760805, 857760878, 2036477234, 1797285236, 0, 0, 0, 0, 0, 0, 0, 0,
                    4294967295, 0, 0, 0],
           keystream = replicate 64 0, byteCounter = 0 \<rparr> [Encrypt (Uint8Array [0])]) ! 12
     = 4294967296
   \<and> (4294967295 + 1) mod 2 ^ 32 = (0 :: int)
   \<and> param (final \<lparr> key = replicate 32 0, nonce = replicate 12 0, counter = 4294967295,
           param = [1634760805, 857760878, 2036477234, 1797285236, 0, 0, 0, 0, 0, 0, 0, 0,
                    4294967295, 0, 0, 0],
           keystream = replicate 64 0, byteCounter = 0 \<rparr> [Encrypt (Uint8Array [0])]) ! 12
     \<noteq> (4294967295 + 1) mod 2 ^ 32"
proof -
  let ?e = "\<lparr> key = replicate 32 0, nonce = replicate 12 0, counter = 4294967295,
           param = [1634760805, 857760878, 2036477234, 1797285236, 0, 0, 0, 0, 0, 0, 0, 0,
                    4294967295, 0, 0, 0],
           keystream = replicate 64 0, byteCounter = 0 \<rparr>"
  have c: "Chacha20 (Uint8Array (replicate 32 0)) (Uint8Array (replicate 12 0)) (Some 4294967295) = Inr ?e"
    using Chacha20_zero [of "Some 4294967295"] by simp
  have "engine_ok ?e" by (simp add: engine_ok_def)
  then have "param (final ?e [Encrypt (Uint8Array [0])]) ! 12 = 4294967296"
    using final_counter_word [of ?e "[Encrypt (Uint8Array [0])]"] by simp
  then show ?thesis using c by simp
qed

section \<open>Claim C5: encrypt and decrypt are one operation\<close>

text \<open>
  Claim C5. \<^verbatim>\<open>encrypt\<close> and \<^verbatim>\<open>decrypt\<close> are the identical operation: on every engine and
  every argument they return the same result and leave the same engine, and so
  \<^verbatim>\<open>encrypt(data)\<close> by one engine fresh from the constructor equals \<^verbatim>\<open>decrypt(data)\<close>
  by a second engine fresh from the constructor with the same key, nonce and counter.
\<close>
theorem encrypt_equals_decrypt:
  "encrypt e d = decrypt e d \<and>
   (Chacha20 k n c = Inr e1 \<and> Chacha20 k n c = Inr e2 \<longrightarrow> encrypt e1 d = decrypt e2 d)"
  by (auto simp add: encrypt_def decrypt_def)

theorem encrypt_equals_decrypt_witness:
  "Chacha20 (Uint8Array (replicate 32 0)) (Uint8Array (replicate 12 0)) None =
     Inr \<lparr> key = replicate 32 0, nonce = replicate 12 0, counter = 0,
           param = [1634760805, 857760878, 2036477234, 1797285236, 0, 0, 0, 0, 0, 0, 0, 0,
                    0, 0, 0, 0],
           keystream = replicate 64 0, byteCounter = 0 \<rparr>
   \<and> encrypt \<lparr> key = replicate 32 0, nonce = replicate 12 0, counter = 0,
           param = [1634760805, 857760878, 2036477234, 1797285236, 0, 0, 0, 0, 0, 0, 0, 0,
                    0, 0, 0, 0],
           keystream = replicate 64 0, byteCounter = 0 \<rparr> (Uint8Array [1, 2, 3])
     = decrypt \<lparr> key = replicate 32 0, nonce = replicate 12 0, counter = 0,
           param = [1634760805, 857760878, 2036477234, 1797285236, 0, 0, 0, 0, 0, 0, 0, 0,
                    0, 0, 0, 0],
           keystream = replicate 64 0, byteCounter = 0 \<rparr> (Uint8Array [1, 2, 3])"
  using encrypt_equals_decrypt [of _ "Uint8Array [1, 2, 3]" "Uint8Array (replicate 32 0)"
      "Uint8Array (replicate 12 0)" None
      "\<lparr> key = replicate 32 0, nonce = replicate 12 0, counter = 0,
           param = [1634760805, 857760878, 2036477234, 1797285236, 0, 0, 0, 0, 0, 0, 0, 0,
                    0, 0, 0, 0],
           keystream = replicate 64 0, byteCounter = 0 \<rparr>"
      "\<lparr> key = replicate 32 0, nonce = replicate 12 0, counter = 0,
           param = [1634760805, 857760878, 2036477234, 1797285236, 0, 0, 0, 0, 0, 0, 0, 0,
                    0, 0, 0, 0],
           keystream = replicate 64 0, byteCounter = 0 \<rparr>"]
    Chacha20_zero [of None]
  by simp

section \<open>Claim C6: validation in the constructor\<close>

text \<open>
  Claim C6. Construction raises an error if and only if the key is not a byte array of
  exactly 32 bytes or the nonce is not a byte array of exactly 12 bytes (a wrong type and
  \<^verbatim>\<open>null\<close> included). In particular it fails for every key length in \<open>{0, 16, 31, 33}\<close>
  and every nonce length in \<open>{0, 11, 13}\<close>, and succeeds for key length 32 with nonce
  length 12.
\<close>
theorem constructor_validation:
  "((\<exists>err. Chacha20 k n c = Inl err) \<longleftrightarrow>
      (\<not> (\<exists>kb. k = Uint8Array kb \<and> length kb = 32) \<or> \<not> (\<exists>nb. n = Uint8Array nb \<and> length nb = 12)))
   \<and> (\<forall>kb. length kb \<in> {0, 16, 31, 33} \<longrightarrow> (\<exists>err. Chacha20 (Uint8Array kb) n c = Inl err))
   \<and> (\<forall>nb. length nb \<in> {0, 11, 13} \<longrightarrow> (\<exists>err. Chacha20 k (Uint8Array nb) c = Inl err))
   \<and> (\<forall>kb nb. length kb = 32 \<and> length nb = 12 \<longrightarrow>
         (\<exists>e. Chacha20 (Uint8Array kb) (Uint8Array nb) c = Inr e))"
proof (intro conjI allI impI)
  show "(\<exists>err. Chacha20 k n c = Inl err) \<longleftrightarrow>
      (\<not> (\<exists>kb. k = Uint8Array kb \<and> length kb = 32) \<or> \<not> (\<exists>nb. n = Uint8Array nb \<and> length nb = 12))"
    by (cases k; cases n) (auto simp add: Chacha20_def Let_def)
next
  fix kb :: "byte list" assume "length kb \<in> {0, 16, 31, 33}"
  then show "\<exists>err. Chacha20 (Uint8Array kb) n c = Inl err"
    by (auto simp add: Chacha20_def)
next
  fix nb :: "byte list" assume "length nb \<in> {0, 11, 13}"
  then show "\<exists>err. Chacha20 k (Uint8Array nb) c = Inl err"
    by (auto simp add: Chacha20_def)
next
  fix kb nb :: "byte list" assume "length kb = 32 \<and> length nb = 12"
  then show "\<exists>e. Chacha20 (Uint8Array kb) (Uint8Array nb) c = Inr e"
    by (simp add: Chacha20_def Let_def)
qed

theorem constructor_validation_witness:
  "(\<exists>err. Chacha20 (Uint8Array (replicate 16 0)) (Uint8Array (replicate 12 0)) None = Inl err)
   \<and> (\<exists>err. Chacha20 (Uint8Array (replicate 32 0)) (Uint8Array (replicate 13 0)) None = Inl err)
   \<and> (\<exists>err. Chacha20 Null (Uint8Array (replicate 12 0)) None = Inl err)
   \<and> (\<exists>e. Chacha20 (Uint8Array (replicate 32 0)) (Uint8Array (replicate 12 0)) None = Inr e)"
  using constructor_validation [of "Uint8Array (replicate 32 0)" "Uint8Array (replicate 12 0)" None]
    constructor_validation [of Null "Uint8Array (replicate 12 0)" None]
  by simp

section \<open>Claim C7: a rejected call\<close>

text \<open>
  Claim C7. On every engine, \<^verbatim>\<open>encrypt\<close> and \<^verbatim>\<open>decrypt\<close> raise an error when the input is
  empty or is not a byte array, and the rejected call leaves the engine (parameter array,
  keystream block, cursor and all other fields) exactly as it was before the call.
\<close>
theorem rejected_call_leaves_state:
  "\<not> instanceof_Uint8Array a \<or> bytes a = [] \<Longrightarrow>
     (\<exists>err. encrypt e a = (e, Inl err)) \<and> (\<exists>err. decrypt e a = (e, Inl err))"
  by (simp add: encrypt_def decrypt_def update_error)

theorem rejected_call_leaves_state_witness:
  "(\<exists>err. encrypt \<lparr> key = replicate 32 0, nonce = replicate 12 0, counter = 0,
           param = [1634760805, 857760878, 2036477234, 1797285236, 0, 0, 0, 0, 0, 0, 0, 0,
                    1, 0, 0, 0],
           keystream = replicate 64 5, byteCounter = 17 \<rparr> (Uint8Array []) =
      (\<lparr> key = replicate 32 0, nonce = replicate 12 0, counter = 0,
           param = [1634760805, 857760878, 2036477234, 1797285236, 0, 0, 0, 0, 0, 0, 0, 0,
                    1, 0, 0, 0],
           keystream = replicate 64 5, byteCounter = 17 \<rparr>, Inl err))
   \<and> (\<exists>err. decrypt \<lparr> key = replicate 32 0, nonce = replicate 12 0, counter = 0,
           param = [1634760805, 857760878, 2036477234, 1797285236, 0, 0, 0, 0, 0, 0, 0, 0,
                    1, 0, 0, 0],
           keystream = replicate 64 5, byteCounter = 17 \<rparr> (Uint8Array []) =
      (\<lparr> key = replicate 32 0, nonce = replicate 12 0, counter = 0,
           param = [1634760805, 857760878, 2036477234, 1797285236, 0, 0, 0, 0, 0, 0, 0, 0,
                    1, 0, 0, 0],
           keystream = replicate 64 5, byteCounter = 17 \<rparr>, Inl err))"
  using rejected_call_leaves_state [of "Uint8Array []"
      "\<lparr> key = replicate 32 0, nonce = replicate 12 0, counter = 0,
           param = [1634760805, 857760878, 2036477234, 1797285236, 0, 0, 0, 0, 0, 0, 0, 0,
                    1, 0, 0, 0],
           keystream = replicate 64 5, byteCounter = 17 \<rparr>"]
  by simp

section \<open>Claim C8: what the block function and the calls change\<close>

text \<open>
  Claim C8. The block function changes nothing but the keystream block: it advances no
  counter and leaves the 16-word state as it is. Along every sequence of calls on an
  engine, the state array keeps its length and every word other than word 12 keeps its
  value (as do the key, the nonce and the counter field).
\<close>
theorem only_counter_word_changes:
  "chacha e = e\<lparr>keystream := keystream (chacha e)\<rparr>
   \<and> (\<forall>r\<in>set (run e cs). length (param (fst r)) = length (param e)
         \<and> (\<forall>i. i \<noteq> 12 \<longrightarrow> param (fst r) ! i = param e ! i)
         \<and> key (fst r) = key e \<and> nonce (fst r) = nonce e \<and> counter (fst r) = counter e)"
proof (intro conjI ballI)
  show "chacha e = e\<lparr>keystream := keystream (chacha e)\<rparr>" by (rule chacha_frame)
next
  fix r assume "r \<in> set (run e cs)"
  then obtain pre where p: "fst r = final e pre" using run_member_final by blast
  show "length (param (fst r)) = length (param e)" unfolding p by (rule final_fields)
  show "\<forall>i. i \<noteq> 12 \<longrightarrow> param (fst r) ! i = param e ! i" unfolding p by (simp add: final_fields)
  show "key (fst r) = key e" unfolding p by (rule final_fields)
  show "nonce (fst r) = nonce e" unfolding p by (rule final_fields)
  show "counter (fst r) = counter e" unfolding p by (rule final_fields)
qed

theorem only_counter_word_changes_witness:
  "chacha \<lparr> key = replicate 32 0, nonce = replicate 12 0, counter = 0,
           param = [1634760805, 857760878, 2036477234, 1797285236, 0, 0, 0, 0, 0, 0, 0, 0,
                    0, 0, 0, 0],
           keystream = replicate 64 0, byteCounter = 0 \<rparr>
     = \<lparr> key = replicate 32 0, nonce = replicate 12 0, counter = 0,
           param = [1634760805, 857760878, 2036477234, 1797285236, 0, 0, 0, 0, 0, 0, 0, 0,
                    0, 0, 0, 0],
           keystream = keystream (chacha \<lparr> key = replicate 32 0, nonce = replicate 12 0, counter = 0,
           param = [1634760805, 857760878, 2036477234, 1797285236, 0, 0, 0, 0, 0, 0, 0, 0,
                    0, 0, 0, 0],
           keystream = replicate 64 0, byteCounter = 0 \<rparr>), byteCounter = 0 \<rparr>
   \<and> encrypt \<lparr> key = replicate 32 0, nonce = replicate 12 0, counter = 0,
           param = [1634760805, 857760878, 2036477234, 1797285236, 0, 0, 0, 0, 0, 0, 0, 0,
                    0, 0, 0, 0],
           keystream = replicate 64 0, byteCounter = 0 \<rparr> (Uint8Array [1])
       \<in> set (run \<lparr> key = replicate 32 0, nonce = replicate 12 0, counter = 0,
           param = [1634760805, 857760878, 2036477234, 1797285236, 0, 0, 0, 0, 0, 0, 0, 0,
                    0, 0, 0, 0],
           keystream = replicate 64 0, byteCounter = 0 \<rparr> [Encrypt (Uint8Array [1])])
   \<and> length (param (fst (encrypt \<lparr> key = replicate 32 0, nonce = replicate 12 0, counter = 0,
           param = [1634760805, 857760878, 2036477234, 1797285236, 0, 0, 0, 0, 0, 0, 0, 0,
                    0, 0, 0, 0],
           keystream = replicate 64 0, byteCounter = 0 \<rparr> (Uint8Array [1])))) = 16
   \<and> param (fst (encrypt \<lparr> key = replicate 32 0, nonce = replicate 12 0, counter = 0,
           param = [1634760805, 857760878, 2036477234, 1797285236, 0, 0, 0, 0, 0, 0, 0, 0,
                    0, 0, 0, 0],
           keystream = replicate 64 0, byteCounter = 0 \<rparr> (Uint8Array [1]))) ! 0 = 1634760805"
proof -
  let ?e = "\<lparr> key = replicate 32 0, nonce = replicate 12 0, counter = 0,
           param = [1634760805, 857760878, 2036477234, 1797285236, 0, 0, 0, 0, 0, 0, 0, 0,
                    0, 0, 0, 0],
           keystream = replicate 64 0, byteCounter = 0 \<rparr>"
  let ?r = "encrypt ?e (Uint8Array [1])"
  note t = only_counter_word_changes [of ?e "[Encrypt (Uint8Array [1])]"]
  have m: "?r \<in> set (run ?e [Encrypt (Uint8Array [1])])" by (simp add: Let_def)
  have a: "chacha ?e = ?e\<lparr>keystream := keystream (chacha ?e)\<rparr>" using t by blast
  have b: "length (param (fst ?r)) = length (param ?e)
         \<and> (\<forall>i. i \<noteq> 12 \<longrightarrow> param (fst ?r) ! i = param ?e ! i)"
    using t m by blast
  then have "length (param (fst ?r)) = 16" by simp
  moreover have "param (fst ?r) ! 0 = param ?e ! 0"
    using conjunct2 [OF b, THEN spec, of 0] by simp
  then have "param (fst ?r) ! 0 = 1634760805" by simp
  moreover have "chacha ?e = \<lparr> key = replicate 32 0, nonce = replicate 12 0, counter = 0,
           param = [1634760805, 857760878, 2036477234, 1797285236, 0, 0, 0, 0, 0, 0, 0, 0,
                    0, 0, 0, 0],
           keystream = keystream (chacha ?e), byteCounter = 0 \<rparr>"
    using a by simp
  ultimately show ?thesis using m by blast
qed

section \<open>Claim C9: the state depends on the call lengths only\<close>

text \<open>
  Claim C9. Two engines built independently from the same key, nonce and counter and
  driven by call sequences of the same lengths go through the same internal states
  (parameter array, keystream block, cursor) call after call and end in the same state,
  whatever the bytes of the inputs are; on the same inputs they also return the same
  outputs.
\<close>
theorem same_call_lengths_same_states:
  assumes "Chacha20 k n c = Inr e1" and "Chacha20 k n c = Inr e2"
    and "map (\<lambda>c. length (bytes (argument c))) cs1 = map (\<lambda>c. length (bytes (argument c))) cs2"
  shows "map fst (run e1 cs1) = map fst (run e2 cs2) \<and> final e1 cs1 = final e2 cs2
     \<and> (map argument cs1 = map argument cs2 \<longrightarrow> map snd (run e1 cs1) = map snd (run e2 cs2))"
proof -
  have e: "e1 = e2" using assms(1,2) by simp
  show ?thesis unfolding e
    using run_states [OF assms(3), of e2] final_same_lengths [OF assms(3), of e2]
      run_outputs [of cs1 cs2 e2] by blast
qed

theorem same_call_lengths_same_states_witness:
  "map fst (run \<lparr> key = replicate 32 0, nonce = replicate 12 0, counter = 0,
           param = [1634760805, 857760878, 2036477234, 1797285236, 0, 0, 0, 0, 0, 0, 0, 0,
                    0, 0, 0, 0],
           keystream = replicate 64 0, byteCounter = 0 \<rparr>
         [Encrypt (Uint8Array [1, 2]), Decrypt (Uint8Array [3])])
   = map fst (run \<lparr> key = replicate 32 0, nonce = replicate 12 0, counter = 0,
           param = [1634760805, 857760878, 2036477234, 1797285236, 0, 0, 0, 0, 0, 0, 0, 0,
                    0, 0, 0, 0],
           keystream = replicate 64 0, byteCounter = 0 \<rparr>
         [Decrypt (Uint8Array [7, 7]), Decrypt (Uint8Array [0])])"
proof -
  let ?e = "\<lparr> key = replicate 32 0, nonce = replicate 12 0, counter = 0,
           param = [1634760805, 857760878, 2036477234, 1797285236, 0, 0, 0, 0, 0, 0, 0, 0,
                    0, 0, 0, 0],
           keystream = replicate 64 0, byteCounter = 0 \<rparr>"
  have c: "Chacha20 (Uint8Array (replicate 32 0)) (Uint8Array (replicate 12 0)) None = Inr ?e"
    using Chacha20_zero [of None] by simp
  have l: "map (\<lambda>c. length (bytes (argument c))) [Encrypt (Uint8Array [1, 2]), Decrypt (Uint8Array [3])]
         = map (\<lambda>c. length (bytes (argument c))) [Decrypt (Uint8Array [7, 7]), Decrypt (Uint8Array [0])]"
    by simp
  show ?thesis using same_call_lengths_same_states [OF c c l] by blast
qed

section \<open>Claim C10: the input array is not modified\<close>

text \<open>
  Claim C10. For every engine and every non-empty byte array passed to \<^verbatim>\<open>encrypt\<close> or
  \<^verbatim>\<open>decrypt\<close>: the call returns a reference to a newly allocated array of the same
  length as the input, every array that existed before the call (the input among them)
  holds the same bytes after the call, and the new array holds the bytes that \<open>update\<close>
  computes from the input.
\<close>

theorem input_array_not_modified:
  assumes "r < length h" and "h ! r \<noteq> []"
  shows "\<exists>h' e' out. encrypt_heap h e (Ref r) = (h', e', Inr out)
      \<and> decrypt_heap h e (Ref r) = (h', e', Inr out)
      \<and> out = length h \<and> length h' = length h + 1
      \<and> (\<forall>r' < length h. h' ! r' = h ! r') \<and> h' ! r = h ! r
      \<and> length (h' ! out) = length (h ! r)
      \<and> update e (Uint8Array (h ! r)) = (e', Inr (h' ! out))"
  using update_heap_result [OF assms, of e] assms(1)
  by (auto simp add: encrypt_heap_def decrypt_heap_def)

theorem input_array_not_modified_witness:
  "\<exists>h' e' out. encrypt_heap [[1, 2, 3]] \<lparr> key = replicate 32 0, nonce = replicate 12 0, counter = 0,
           param = [1634760805, 857760878, 2036477234, 1797285236, 0, 0, 0, 0, 0, 0, 0, 0,
                    0, 0, 0, 0],
           keystream = replicate 64 0, byteCounter = 0 \<rparr> (Ref 0) = (h', e', Inr out)
      \<and> out = 1 \<and> length h' = 2 \<and> h' ! 0 = [1, 2, 3] \<and> length (h' ! out) = 3"
  using input_array_not_modified [of 0 "[[1, 2, 3]]" "\<lparr> key = replicate 32 0, nonce = replicate 12 0, counter = 0,
           param = [1634760805, 857760878, 2036477234, 1797285236, 0, 0, 0, 0, 0, 0, 0, 0,
                    0, 0, 0, 0],
           keystream = replicate 64 0, byteCounter = 0 \<rparr>"]
  by auto

end
